theory Spec2Isabelle
  imports Complex_Main "HOL-Library.AList" "HOL-Library.Multiset" "HOL-Library.Log_Nat"
begin

section \<open>Python floats\<close>

text \<open>
  A Python float is an IEEE 754 binary64 number, held here as the rational number it
  stands for. \<open>double x\<close> is the float nearest to the rational \<open>x\<close>, a tie going to the even
  mantissa; it is what a float literal denotes and what each float operation returns for
  the exact result \<open>x\<close>. Numbers too large for a float do not occur in what follows.
\<close>

definition pow2 :: "int \<Rightarrow> rat" where
  "pow2 e = (if 0 \<le> e then 2 ^ nat e else 1 / 2 ^ nat (- e))"

text \<open>The binary exponent of a positive rational \<open>a\<close>: the \<open>e\<close> with \<open>2^e \<le> a < 2^(e+1)\<close>,
  found from the numbers of binary digits of numerator and denominator.\<close>

definition exponent :: "rat \<Rightarrow> int" where
  "exponent a =
     (case quotient_of a of (p, q) \<Rightarrow>
        let n = bitlen p - bitlen q
        in if pow2 n \<le> a then n else n - 1)"

definition round_half_even :: "rat \<Rightarrow> int" where
  "round_half_even r =
     (let f = \<lfloor>r\<rfloor>; d = r - of_int f
      in if d < 1 / 2 then f else if d > 1 / 2 then f + 1 else if even f then f else f + 1)"

text \<open>The mantissa has 53 bits; below \<open>2^(-1022)\<close> the spacing stays that of the smallest
  normal numbers.\<close>

definition double :: "rat \<Rightarrow> rat" where
  "double x =
     (if x = 0 then 0
      else let a = \<bar>x\<bar>;
               e = max (exponent a) (- 1022);
               m = round_half_even (a * pow2 (52 - e))
           in sgn x * of_int m * pow2 (e - 52))"

text \<open>Float addition, multiplication and division: the exact result, rounded.\<close>

definition fadd :: "rat \<Rightarrow> rat \<Rightarrow> rat" where
  "fadd a b = double (a + b)"

definition fmul :: "rat \<Rightarrow> rat \<Rightarrow> rat" where
  "fmul a b = double (a * b)"

definition fdiv :: "rat \<Rightarrow> rat \<Rightarrow> rat" where
  "fdiv a b = double (a / b)"

section \<open>ParsingService: strategy bookkeeping (parsing\_service/app.py)\<close>

text \<open>
  A strategy is the dictionary built by \<open>_initialize_strategies\<close>. The handler object is
  not part of the record: what a handler does on a call is supplied from outside wherever
  \<open>parse_video\<close> is modelled.
\<close>

record strategy =
  name :: string
  priority :: int
  timeout :: int
  enabled :: bool

text \<open>\<open>{**strategy, 'score': dynamic_weight}\<close>: the strategy with one more field.\<close>

record scored_strategy = strategy +
  score :: rat

text \<open>
  The state of a \<open>ParsingService\<close> object. Success counts are Python integers; failure
  counts start as integers and become floats in steps of one half, which are exact, so they
  are rationals here. Weights are floats.
\<close>

record parsing_service =
  strategies :: "strategy list"
  strategy_weights :: "string \<rightharpoonup> rat"
  failure_counts :: "string \<rightharpoonup> rat"
  success_counts :: "string \<rightharpoonup> int"

text \<open>\<open>d.get(k, default)\<close>\<close>

definition dict_get :: "('k \<rightharpoonup> 'v) \<Rightarrow> 'k \<Rightarrow> 'v \<Rightarrow> 'v" where
  "dict_get d k dflt = (case d k of None \<Rightarrow> dflt | Some v \<Rightarrow> v)"

text \<open>
  \<open>_initialize_strategies\<close>: the two flags are the outcomes of the tests on the environment
  variables \<open>ENABLE_PLAYWRIGHT\<close> and \<open>ENABLE_SELENIUM\<close>.
\<close>

definition initialize_strategies :: "bool \<Rightarrow> bool \<Rightarrow> strategy list" where
  "initialize_strategies enable_playwright enable_selenium =
     [\<lparr>name = ''api_with_signature'', priority = 1, timeout = 10, enabled = True\<rparr>]
     @ (if enable_playwright
        then [\<lparr>name = ''playwright'', priority = 2, timeout = 30, enabled = True\<rparr>] else [])
     @ (if enable_selenium
        then [\<lparr>name = ''selenium'', priority = 3, timeout = 30, enabled = True\<rparr>] else [])
     @ [\<lparr>name = ''requests'', priority = 4, timeout = 15, enabled = True\<rparr>]"

text \<open>\<open>_initialize_weights\<close>: the float literals \<open>1.0\<close>, \<open>0.8\<close>, \<open>0.6\<close> and \<open>0.4\<close>.\<close>

definition initialize_weights :: "string \<rightharpoonup> rat" where
  "initialize_weights =
     [''api_with_signature'' \<mapsto> double 1, ''playwright'' \<mapsto> double (8 / 10),
      ''selenium'' \<mapsto> double (6 / 10), ''requests'' \<mapsto> double (4 / 10)]"

text \<open>\<open>ParsingService.__init__\<close>\<close>

definition ParsingService_init :: "bool \<Rightarrow> bool \<Rightarrow> parsing_service" where
  "ParsingService_init enable_playwright enable_selenium =
     \<lparr>strategies = initialize_strategies enable_playwright enable_selenium,
      strategy_weights = initialize_weights,
      failure_counts = Map.empty,
      success_counts = Map.empty\<rparr>"

text \<open>\<open>_record_success\<close>: the failure count is touched only when the key is present.\<close>

definition record_success :: "string \<Rightarrow> parsing_service \<Rightarrow> parsing_service" where
  "record_success strategy_name s =
     (let s1 = s\<lparr>success_counts :=
                  (success_counts s)(strategy_name \<mapsto> dict_get (success_counts s) strategy_name 0 + 1)\<rparr>
      in case failure_counts s1 strategy_name of
           None \<Rightarrow> s1
         | Some f \<Rightarrow> s1\<lparr>failure_counts := (failure_counts s1)(strategy_name \<mapsto> max 0 (f - 1 / 2))\<rparr>)"

text \<open>\<open>_record_failure\<close>\<close>

definition record_failure :: "string \<Rightarrow> parsing_service \<Rightarrow> parsing_service" where
  "record_failure strategy_name s =
     s\<lparr>failure_counts :=
         (failure_counts s)(strategy_name \<mapsto> dict_get (failure_counts s) strategy_name 0 + 1)\<rparr>"

text \<open>
  The only writers of the two count dictionaries are the two methods above. A history of the
  object is the list of recordings made on it since construction, oldest first.
\<close>

datatype recording = Success string | Failure string

fun record_one :: "recording \<Rightarrow> parsing_service \<Rightarrow> parsing_service" where
  "record_one (Success n) s = record_success n s"
| "record_one (Failure n) s = record_failure n s"

fun record_all :: "recording list \<Rightarrow> parsing_service \<Rightarrow> parsing_service" where
  "record_all [] s = s"
| "record_all (e # es) s = record_all es (record_one e s)"

text \<open>
  \<open>_sort_strategies_by_weight\<close>. The dynamic weight is computed per strategy, in float
  arithmetic: the quotient, the product with \<open>0.5\<close>, the sum with \<open>0.5\<close> and the product
  with the base weight are each rounded. The two counts and their sum are numbers that
  Python holds exactly as long as fewer than \<open>2^51\<close> recordings have been made, and the
  quotient of two such numbers is correctly rounded whether they are integers or floats.
  The list is then sorted by score with \<open>reverse=True\<close>, which in Python is stable:
  strategies of equal score keep their relative order. A stable ascending sort on the
  negated score is the same order.
\<close>

definition dynamic_weight :: "parsing_service \<Rightarrow> string \<Rightarrow> rat" where
  "dynamic_weight s nm =
     (let base_weight = dict_get (strategy_weights s) nm (double (1 / 2));
          success_count = of_int (dict_get (success_counts s) nm 0);
          failure_count = dict_get (failure_counts s) nm 0
      in if success_count + failure_count > 0
         then let success_rate = fdiv success_count (success_count + failure_count)
              in fmul base_weight (fadd (double (1 / 2)) (fmul success_rate (double (1 / 2))))
         else base_weight)"

definition with_score :: "parsing_service \<Rightarrow> strategy \<Rightarrow> scored_strategy" where
  "with_score s st = strategy.extend st \<lparr>score = dynamic_weight s (name st)\<rparr>"

definition sort_strategies_by_weight :: "parsing_service \<Rightarrow> scored_strategy list" where
  "sort_strategies_by_weight s =
     sort_key (\<lambda>x. - score x) (map (with_score s) (strategies s))"

section \<open>Python values\<close>

text \<open>
  The values that flow through the service are JSON-like: what a handler scrapes, what is
  stored in the cache, what a request body carries. A dictionary is an association list in
  insertion order, with string keys; a float is a rational (the floats the code computes
  with here are timestamps, which are only stored and compared).
\<close>

datatype pyval =
    PNone
  | PBool bool
  | PInt int
  | PFloat rat
  | PStr string
  | PList "pyval list"
  | PDict "(string \<times> pyval) list"

type_synonym pydict = "(string \<times> pyval) list"

text \<open>Truth value testing: \<open>if v:\<close> and \<open>not v\<close>.\<close>

fun truthy :: "pyval \<Rightarrow> bool" where
  "truthy PNone = False"
| "truthy (PBool b) = b"
| "truthy (PInt i) = (i \<noteq> 0)"
| "truthy (PFloat r) = (r \<noteq> 0)"
| "truthy (PStr s) = (s \<noteq> [])"
| "truthy (PList xs) = (xs \<noteq> [])"
| "truthy (PDict d) = (d \<noteq> [])"

text \<open>\<open>k in d\<close>, \<open>d[k]\<close> for a key that is present, \<open>d.get(k, default)\<close>, \<open>d[k] = v\<close> and
  \<open>d.update(e)\<close> on dictionaries.\<close>

definition contains :: "pydict \<Rightarrow> string \<Rightarrow> bool" where
  "contains d k = (map_of d k \<noteq> None)"

definition getitem :: "pydict \<Rightarrow> string \<Rightarrow> pyval" where
  "getitem d k = the (map_of d k)"

definition get_default :: "pydict \<Rightarrow> string \<Rightarrow> pyval \<Rightarrow> pyval" where
  "get_default d k dflt = (case map_of d k of None \<Rightarrow> dflt | Some v \<Rightarrow> v)"

definition setitem :: "string \<Rightarrow> pyval \<Rightarrow> pydict \<Rightarrow> pydict" where
  "setitem k v d = AList.update k v d"

definition dict_update :: "pydict \<Rightarrow> pydict \<Rightarrow> pydict" where
  "dict_update d e = foldl (\<lambda>acc (k, v). setitem k v acc) d e"

text \<open>Exceptions raised by operations on values of the wrong shape.\<close>

datatype py_error = AttributeError | TypeError | KeyError | IndexError

text \<open>Sequencing of computations that may raise.\<close>

definition bind :: "py_error + 'a \<Rightarrow> ('a \<Rightarrow> py_error + 'b) \<Rightarrow> py_error + 'b" where
  "bind m f = (case m of Inl e \<Rightarrow> Inl e | Inr x \<Rightarrow> f x)"

text \<open>\<open>v.get(k, default)\<close> on an arbitrary value: only a dictionary has the method.\<close>

definition py_get :: "pyval \<Rightarrow> string \<Rightarrow> pyval \<Rightarrow> py_error + pyval" where
  "py_get v k dflt = (case v of PDict d \<Rightarrow> Inr (get_default d k dflt) | _ \<Rightarrow> Inl AttributeError)"

text \<open>
  \<open>v[0]\<close> on a value that has passed a truth test: the first element of a list, the first
  character of a string; a dictionary has no integer key; numbers are not subscriptable.
\<close>

definition index0 :: "pyval \<Rightarrow> py_error + pyval" where
  "index0 v = (case v of
       PList xs \<Rightarrow> (case xs of [] \<Rightarrow> Inl IndexError | x # _ \<Rightarrow> Inr x)
     | PStr s \<Rightarrow> (case s of [] \<Rightarrow> Inl IndexError | c # _ \<Rightarrow> Inr (PStr [c]))
     | PDict d \<Rightarrow> Inl KeyError
     | _ \<Rightarrow> Inl TypeError)"

text \<open>\<open>for x in v\<close>: the elements of a list, the characters of a string, the keys of a
  dictionary; other values are not iterable.\<close>

definition iterate :: "pyval \<Rightarrow> py_error + pyval list" where
  "iterate v = (case v of
       PList xs \<Rightarrow> Inr xs
     | PStr s \<Rightarrow> Inr (map (\<lambda>c. PStr [c]) s)
     | PDict d \<Rightarrow> Inr (map (\<lambda>(k, _). PStr k) d)
     | _ \<Rightarrow> Inl TypeError)"

text \<open>\<open>s.replace(old, new)\<close> for a non-empty \<open>old\<close>: occurrences are replaced from the left
  and do not overlap.\<close>

fun replace :: "string \<Rightarrow> string \<Rightarrow> string \<Rightarrow> string" where
  "replace old new [] = []"
| "replace old new (c # cs) =
     (if old \<noteq> [] \<and> take (length old) (c # cs) = old
      then new @ replace old new (drop (length old - 1) cs)
      else c # replace old new cs)"

section \<open>BaseStrategy.normalize\_video\_info (parsing\_service/strategies/base\_strategy.py)\<close>

text \<open>
  \<open>_extract_from_aweme_detail\<close>. The builtin \<open>str\<close> is a parameter (\<open>py_str\<close>); every
  \<open>.get\<close> on something that is not a dictionary raises, as does indexing or iterating
  a value of the wrong shape. The function is written in the order of the source, one
  helper per block.
\<close>

definition first_url :: "pyval \<Rightarrow> py_error + pyval option" where
  \<comment> \<open>\<open>url_list = x.get('url_list', []); if url_list: ... url_list[0]\<close>\<close>
  "first_url x =
     bind (py_get x ''url_list'' (PList [])) (\<lambda>url_list.
       if truthy url_list then bind (index0 url_list) (\<lambda>u. Inr (Some u)) else Inr None)"

fun extract_images :: "pyval list \<Rightarrow> pyval list \<Rightarrow> py_error + pyval list" where
  "extract_images [] acc = Inr acc"
| "extract_images (img # imgs) acc =
     (case img of
        PDict d \<Rightarrow> bind (first_url img) (\<lambda>u.
           case u of None \<Rightarrow> extract_images imgs acc
                   | Some x \<Rightarrow> extract_images imgs (acc @ [x]))
      | _ \<Rightarrow> extract_images imgs acc)"

definition extract_video :: "pyval \<Rightarrow> pydict \<Rightarrow> py_error + pydict" where
  "extract_video detail info =
     bind (py_get detail ''video'' (PDict [])) (\<lambda>video.
     bind (py_get video ''play_addr'' (PDict [])) (\<lambda>play_addr.
     bind (if truthy play_addr
           then bind (first_url play_addr) (\<lambda>u.
                  case u of None \<Rightarrow> Inr info
                  | Some (PStr s) \<Rightarrow> Inr (setitem ''video_url'' (PStr (replace ''playwm'' ''play'' s)) info)
                  | Some _ \<Rightarrow> Inl AttributeError)
           else Inr info) (\<lambda>info1.
     bind (py_get video ''cover'' (PDict [])) (\<lambda>cover.
     bind (if truthy cover
           then bind (first_url cover) (\<lambda>u.
                  case u of None \<Rightarrow> Inr info1
                  | Some x \<Rightarrow> Inr (setitem ''cover_url'' x info1))
           else Inr info1) (\<lambda>info2.
     bind (py_get video ''duration'' (PInt 0)) (\<lambda>duration.
       Inr (setitem ''duration'' duration info2)))))))"

definition extract_music :: "pyval \<Rightarrow> pydict \<Rightarrow> py_error + pydict" where
  "extract_music detail info =
     bind (py_get detail ''music'' (PDict [])) (\<lambda>music.
       if truthy music
       then bind (py_get music ''play_url'' (PDict [])) (\<lambda>play_url.
              if truthy play_url
              then bind (first_url play_url) (\<lambda>u.
                     case u of None \<Rightarrow> Inr info
                     | Some x \<Rightarrow> Inr (setitem ''music_url'' x info))
              else Inr info)
       else Inr info)"

definition extract_from_aweme_detail :: "(pyval \<Rightarrow> string) \<Rightarrow> pyval \<Rightarrow> py_error + pydict" where
  "extract_from_aweme_detail py_str detail =
     bind (py_get detail ''aweme_id'' (PStr [])) (\<lambda>aweme_id.
     bind (py_get detail ''desc'' (PStr [])) (\<lambda>desc.
     bind (py_get detail ''create_time'' (PInt 0)) (\<lambda>create_time.
     bind (py_get detail ''author'' (PDict [])) (\<lambda>author.
     bind (py_get author ''nickname'' (PStr [])) (\<lambda>nickname.
     bind (py_get author ''sec_uid'' (PStr [])) (\<lambda>sec_uid.
     bind (py_get detail ''statistics'' (PDict [])) (\<lambda>stats.
     bind (py_get stats ''digg_count'' (PInt 0)) (\<lambda>digg_count.
     bind (py_get stats ''comment_count'' (PInt 0)) (\<lambda>comment_count.
     bind (py_get stats ''share_count'' (PInt 0)) (\<lambda>share_count.
     bind (py_get stats ''play_count'' (PInt 0)) (\<lambda>play_count.
     let info = [(''video_id'', PStr (py_str aweme_id)),
                 (''title'', desc),
                 (''create_time'', create_time),
                 (''author'', nickname),
                 (''author_id'', sec_uid),
                 (''statistics'', PDict [(''likes'', digg_count), (''comments'', comment_count),
                                         (''shares'', share_count), (''views'', play_count)])]
     in
     bind (py_get detail ''images'' PNone) (\<lambda>images.
     bind (if truthy images
           then bind (iterate images) (\<lambda>imgs.
                bind (extract_images imgs []) (\<lambda>urls.
                  Inr (setitem ''images'' (PList urls) (setitem ''is_image'' (PBool True) info))))
           else extract_video detail info) (\<lambda>info1.
       extract_music detail info1)))))))))))))"

definition normalize_video_info :: "(pyval \<Rightarrow> string) \<Rightarrow> pydict \<Rightarrow> py_error + pydict" where
  "normalize_video_info py_str raw_data =
     (let video_info =
            [(''video_id'', PStr []), (''title'', PStr []), (''author'', PStr []),
             (''author_id'', PStr []), (''video_url'', PStr []), (''cover_url'', PStr []),
             (''music_url'', PStr []), (''duration'', PInt 0), (''create_time'', PInt 0),
             (''statistics'', PDict [(''likes'', PInt 0), (''comments'', PInt 0),
                                     (''shares'', PInt 0), (''views'', PInt 0)]),
             (''is_image'', PBool False), (''images'', PList []),
             (''raw_data'', PDict raw_data)]
      in if contains raw_data ''aweme_detail''
         then bind (extract_from_aweme_detail py_str (getitem raw_data ''aweme_detail''))
                (\<lambda>info. Inr (dict_update video_info info))
         else if contains raw_data ''item_list''
         then (if truthy (getitem raw_data ''item_list'')
               then bind (index0 (getitem raw_data ''item_list'')) (\<lambda>detail.
                    bind (extract_from_aweme_detail py_str detail)
                      (\<lambda>info. Inr (dict_update video_info info)))
               else Inr video_info)
         else if contains raw_data ''aweme_id''
         then bind (extract_from_aweme_detail py_str (PDict raw_data))
                (\<lambda>info. Inr (dict_update video_info info))
         else Inr video_info)"

section \<open>ParsingService.\_validate\_result (parsing\_service/app.py)\<close>

text \<open>The result is a dictionary (\<open>result: Dict\<close>); the three tests are those of the source,
  in its order.\<close>

definition validate_result :: "pydict \<Rightarrow> bool" where
  "validate_result result =
     (if result = [] then False
      else if \<not> list_all (\<lambda>field. contains result field) [''video_id'', ''title'', ''author'']
      then False
      else if contains result ''video_url''
              \<and> (\<not> truthy (getitem result ''video_url'')
                   \<or> getitem result ''video_url'' = PStr ''None'')
      then False
      else True)"


section \<open>CacheManager (parsing\_service/utils/cache\_manager.py)\<close>

text \<open>
  The Redis server: each key holds a value and the instant at which it expires
  (\<open>SETEX key ttl value\<close> at time \<open>now\<close> expires at \<open>now + ttl\<close>). The stored value is the
  JSON text of a Python value; since \<open>json.loads (json.dumps v) = v\<close> for the values of
  \<open>pyval\<close>, the store holds the value itself. A command sent while the server cannot be
  reached raises, and so does \<open>SETEX\<close> with an expiry that is not positive.
\<close>

record redis =
  store :: "string \<rightharpoonup> (pyval \<times> rat)"
  up :: bool

definition redis_get :: "redis \<Rightarrow> string \<Rightarrow> rat \<Rightarrow> unit + pyval option" where
  "redis_get r k now =
     (if \<not> up r then Inl ()
      else case store r k of
             None \<Rightarrow> Inr None
           | Some (v, expires) \<Rightarrow> if now < expires then Inr (Some v) else Inr None)"

definition redis_setex :: "redis \<Rightarrow> string \<Rightarrow> int \<Rightarrow> pyval \<Rightarrow> rat \<Rightarrow> unit + redis" where
  "redis_setex r k ttl v now =
     (if \<not> up r \<or> ttl \<le> 0 then Inl ()
      else Inr (r\<lparr>store := (store r)(k \<mapsto> (v, now + of_int ttl))\<rparr>))"

record cache_manager =
  redis_client :: redis
  prefix :: string
  default_ttl :: int
  hits :: int
  misses :: int
  sets :: int
  deletes :: int

text \<open>\<open>CacheManager.__init__\<close>\<close>

definition CacheManager_init :: "redis \<Rightarrow> cache_manager" where
  "CacheManager_init r =
     \<lparr>redis_client = r, prefix = ''douyin:cache:'', default_ttl = 3600,
      hits = 0, misses = 0, sets = 0, deletes = 0\<rparr>"

text \<open>\<open>_make_key\<close>. The hash \<open>hashlib.md5(key.encode()).hexdigest()\<close> is the parameter
  \<open>md5\<close>.\<close>

definition make_key :: "(string \<Rightarrow> string) \<Rightarrow> cache_manager \<Rightarrow> string \<Rightarrow> string" where
  "make_key md5 cm key =
     (if take 4 key = ''http'' then prefix cm @ ''url:'' @ md5 key else prefix cm @ key)"

text \<open>\<open>CacheManager.get\<close>: the value found under the key is returned as it was stored.\<close>

definition cache_get ::
  "(string \<Rightarrow> string) \<Rightarrow> cache_manager \<Rightarrow> string \<Rightarrow> rat \<Rightarrow> pyval option \<times> cache_manager" where
  "cache_get md5 cm key now =
     (case redis_get (redis_client cm) (make_key md5 cm key) now of
        Inl _ \<Rightarrow> (None, cm)
      | Inr (Some v) \<Rightarrow> (Some v, cm\<lparr>hits := hits cm + 1\<rparr>)
      | Inr None \<Rightarrow> (None, cm\<lparr>misses := misses cm + 1\<rparr>))"

text \<open>\<open>CacheManager.set\<close>: what is stored is the value wrapped with its metadata.\<close>

definition cache_set ::
  "(string \<Rightarrow> string) \<Rightarrow> cache_manager \<Rightarrow> string \<Rightarrow> pyval \<Rightarrow> int option \<Rightarrow> rat
     \<Rightarrow> bool \<times> cache_manager" where
  "cache_set md5 cm key v ttl now =
     (let cache_key = make_key md5 cm key;
          ttl1 = (case ttl of None \<Rightarrow> default_ttl cm
                  | Some t \<Rightarrow> if t = 0 then default_ttl cm else t);
          cache_data = PDict [(''value'', v), (''cached_at'', PFloat now), (''ttl'', PInt ttl1)]
      in case redis_setex (redis_client cm) cache_key ttl1 cache_data now of
           Inl _ \<Rightarrow> (False, cm)
         | Inr r \<Rightarrow> (True, cm\<lparr>redis_client := r, sets := sets cm + 1\<rparr>))"

section \<open>ProxyManager (parsing\_service/utils/proxy\_manager.py)\<close>

text \<open>
  \<open>proxy_stats\<close> is a \<open>defaultdict\<close>: every proxy has an entry, the default one until it is
  written. The two counters start at 0 and are only ever incremented: they are natural
  numbers. Instants are rationals. Within one call the clock is read once (\<open>now\<close>).
\<close>

record proxy_stat =
  success :: nat
  failure :: nat
  last_used :: rat
  last_success :: rat
  blocked :: bool
  block_until :: rat

definition default_stat :: proxy_stat where
  "default_stat = \<lparr>success = 0, failure = 0, last_used = 0, last_success = 0,
                    blocked = False, block_until = 0\<rparr>"

record proxy_manager =
  proxies :: "string list"
  proxy_stats :: "string \<Rightarrow> proxy_stat"
  rotation_strategy :: string
  current_index :: nat

text \<open>\<open>ProxyManager.__init__\<close>\<close>

definition ProxyManager_init :: "string list \<Rightarrow> proxy_manager" where
  "ProxyManager_init ps =
     \<lparr>proxies = ps, proxy_stats = (\<lambda>_. default_stat),
      rotation_strategy = ''random'', current_index = 0\<rparr>"

text \<open>The loop of \<open>_get_available_proxies\<close>: a proxy whose block has run out is unblocked in
  passing; a blocked one and one used within the last second are skipped.\<close>

fun available_loop ::
  "rat \<Rightarrow> string list \<Rightarrow> (string \<Rightarrow> proxy_stat) \<Rightarrow> string list
     \<Rightarrow> string list \<times> (string \<Rightarrow> proxy_stat)" where
  "available_loop current_time [] stats available = (available, stats)"
| "available_loop current_time (proxy # ps) stats available =
     (if blocked (stats proxy) \<and> current_time < block_until (stats proxy)
      then available_loop current_time ps stats available
      else let stats1 = (if blocked (stats proxy)
                         then stats(proxy := (stats proxy)\<lparr>blocked := False, block_until := 0\<rparr>)
                         else stats)
           in if current_time - last_used (stats1 proxy) < 1
              then available_loop current_time ps stats1 available
              else available_loop current_time ps stats1 (available @ [proxy]))"

definition get_available_proxies :: "proxy_manager \<Rightarrow> rat \<Rightarrow> string list \<times> proxy_manager" where
  "get_available_proxies pm now =
     (case available_loop now (proxies pm) (proxy_stats pm) [] of
        (available, stats) \<Rightarrow> (available, pm\<lparr>proxy_stats := stats\<rparr>))"

text \<open>
  \<open>random.choice(xs)\<close> on a non-empty list returns one of its elements; which one is decided
  by the number \<open>rnd\<close>. \<open>random.choices(xs, weights)[0]\<close> returns an element of positive
  weight.
\<close>

definition random_choice :: "nat \<Rightarrow> 'a list \<Rightarrow> 'a" where
  "random_choice rnd xs = xs ! (rnd mod length xs)"

definition proxy_weight :: "proxy_manager \<Rightarrow> string \<Rightarrow> rat" where
  "proxy_weight pm proxy =
     (let stats = proxy_stats pm proxy; total = success stats + failure stats
      in if total = 0 then 1 / 2 else of_nat (success stats) / of_nat total)"

definition get_weighted_proxy :: "proxy_manager \<Rightarrow> nat \<Rightarrow> string list \<Rightarrow> string" where
  "get_weighted_proxy pm rnd ps =
     (if sum_list (map (proxy_weight pm) ps) = 0 then random_choice rnd ps
      else random_choice rnd (filter (\<lambda>p. proxy_weight pm p > 0) ps))"

text \<open>\<open>ProxyManager.get_proxy\<close>\<close>

definition get_proxy ::
  "proxy_manager \<Rightarrow> string option \<Rightarrow> nat \<Rightarrow> rat \<Rightarrow> string option \<times> proxy_manager" where
  "get_proxy pm strategy rnd now =
     (if proxies pm = [] then (None, pm)
      else
        let strategy1 = (case strategy of None \<Rightarrow> rotation_strategy pm
                         | Some s \<Rightarrow> if s = [] then rotation_strategy pm else s)
        in case get_available_proxies pm now of (available_proxies, pm1) \<Rightarrow>
             if available_proxies = [] then (None, pm1)
             else
               let (proxy, pm2) =
                     (if strategy1 = ''random'' then (random_choice rnd available_proxies, pm1)
                      else if strategy1 = ''round-robin''
                      then (available_proxies ! (current_index pm1 mod length available_proxies),
                            pm1\<lparr>current_index := current_index pm1 + 1\<rparr>)
                      else if strategy1 = ''weighted''
                      then (get_weighted_proxy pm1 rnd available_proxies, pm1)
                      else (available_proxies ! 0, pm1))
               in (Some proxy,
                   pm2\<lparr>proxy_stats := (proxy_stats pm2)
                          (proxy := (proxy_stats pm2 proxy)\<lparr>last_used := now\<rparr>)\<rparr>))"

text \<open>\<open>ProxyManager.mark_success\<close>\<close>

definition mark_success :: "proxy_manager \<Rightarrow> string \<Rightarrow> rat \<Rightarrow> proxy_manager" where
  "mark_success pm proxy now =
     (if proxy = [] then pm
      else pm\<lparr>proxy_stats := (proxy_stats pm)
                 (proxy := (proxy_stats pm proxy)\<lparr>success := success (proxy_stats pm proxy) + 1,
                                                 last_success := now\<rparr>)\<rparr>)"

text \<open>\<open>_count_recent_failures\<close> with its default window of 60 seconds\<close>

definition count_recent_failures :: "proxy_manager \<Rightarrow> string \<Rightarrow> rat \<Rightarrow> nat" where
  "count_recent_failures pm proxy now =
     (if last_success (proxy_stats pm proxy) > now - 60 then 1
      else min (failure (proxy_stats pm proxy)) 3)"

text \<open>\<open>ProxyManager.mark_failure\<close>\<close>

definition mark_failure :: "proxy_manager \<Rightarrow> string \<Rightarrow> int \<Rightarrow> rat \<Rightarrow> proxy_manager" where
  "mark_failure pm proxy block_duration now =
     (if proxy = [] then pm
      else
        let pm1 = pm\<lparr>proxy_stats := (proxy_stats pm)
                       (proxy := (proxy_stats pm proxy)\<lparr>failure := failure (proxy_stats pm proxy) + 1\<rparr>)\<rparr>;
            recent_failures = count_recent_failures pm1 proxy now
        in if recent_failures \<ge> 3
           then pm1\<lparr>proxy_stats := (proxy_stats pm1)
                      (proxy := (proxy_stats pm1 proxy)\<lparr>blocked := True,
                                                        block_until := now + of_int block_duration\<rparr>)\<rparr>
           else pm1)"


text \<open>A proxy is currently blocked: its flag is set and its \<open>block_until\<close> is still ahead.\<close>

definition currently_blocked :: "(string \<Rightarrow> proxy_stat) \<Rightarrow> rat \<Rightarrow> string \<Rightarrow> bool" where
  "currently_blocked stats now proxy =
     (blocked (stats proxy) \<and> now < block_until (stats proxy))"


text \<open>A manager with one proxy that has failed twice, at the instants 100 and 101.\<close>

definition example_proxy :: string where
  "example_proxy = ''http://10.0.0.1:8080''"

definition example_pm :: proxy_manager where
  "example_pm =
     mark_failure (mark_failure (ProxyManager_init [example_proxy]) example_proxy 300 100)
       example_proxy 300 101"


section \<open>ParsingService.parse\_video (parsing\_service/app.py)\<close>

text \<open>
  The module-level objects that \<open>parse_video\<close> reads and writes: the service itself, the
  cache manager, the proxy manager, the counters of the metrics collector (its time series
  and latency lists are written and never read here, and are left out), the clock, and the
  lines \<open>Trying strategy: ...\<close> written to the log, oldest first.
\<close>

record world =
  service :: parsing_service
  cache :: cache_manager
  proxy_mgr :: proxy_manager
  counters :: "string \<Rightarrow> int"
  clock :: rat
  tried :: "string list"

text \<open>
  What one call of a handler does is not decided by the program. Left alone, a handler
  either finishes after some time, by returning a dictionary or \<open>None\<close> or by raising
  (\<open>asyncio.TimeoutError\<close>, or another exception with its message), or it never finishes.
  \<open>asyncio.wait_for\<close> gives the handler's outcome if the handler finishes before the time
  limit. Otherwise it cancels the handler at the limit and waits until the handler has
  ended, which takes the time of the handler's own cleanup (\<open>PlaywrightStrategy.parse\<close>
  closes the browser in a \<open>finally\<close> block); it then raises \<open>asyncio.TimeoutError\<close> if the
  handler ended by the cancellation, and gives whatever the handler returned or raised
  instead if it did not. The second component of \<open>wait_for\<close> is the time the attempt took.
\<close>

datatype attempt = Returned "pydict option" | Raised string | RaisedTimeout

record behaviour =
  finishes :: "(rat \<times> attempt) option"
  cleanup :: rat
  after_cancel :: attempt

definition wait_for :: "behaviour \<Rightarrow> int \<Rightarrow> attempt \<times> rat" where
  "wait_for b limit =
     (case finishes b of
        Some (d, a) \<Rightarrow>
          if d < of_int limit then (a, d) else (after_cancel b, of_int limit + cleanup b)
      | None \<Rightarrow> (after_cancel b, of_int limit + cleanup b))"

text \<open>\<open>defaultdict(int)\<close> counter increment\<close>

definition bump :: "string \<Rightarrow> (string \<Rightarrow> int) \<Rightarrow> (string \<Rightarrow> int)" where
  "bump k c = c(k := c k + 1)"

text \<open>The options dictionary built by \<open>_execute_strategy\<close>.\<close>

definition strategy_options :: "string option \<Rightarrow> pydict \<Rightarrow> pydict" where
  "strategy_options proxy options =
     dict_update
       [(''proxy'', case proxy of None \<Rightarrow> PNone | Some p \<Rightarrow> PStr p),
        (''cookies'', get_default options ''cookies'' PNone),
        (''headers'', get_default options ''headers'' PNone)]
       options"

text \<open>The test \<open>result and self._validate_result(result)\<close>.\<close>

definition accepted :: "pydict option \<Rightarrow> bool" where
  "accepted result = (case result of None \<Rightarrow> False | Some d \<Rightarrow> d \<noteq> [] \<and> validate_result d)"

text \<open>
  The loop over the sorted strategies. \<open>handlers nm url opts\<close> is what the handler of the
  strategy named \<open>nm\<close> does in this call. A result that is not accepted moves on to the
  next strategy without recording anything.
\<close>

fun try_strategies ::
  "(string \<Rightarrow> string) \<Rightarrow> (string \<Rightarrow> string \<Rightarrow> pydict \<Rightarrow> behaviour) \<Rightarrow> string \<Rightarrow> string option
     \<Rightarrow> pydict \<Rightarrow> rat \<Rightarrow> scored_strategy list \<Rightarrow> string option \<Rightarrow> world
     \<Rightarrow> (string + pyval) \<times> world" where
  "try_strategies md5 handlers url proxy options start_time [] last_error w =
     (Inl (''All strategies failed. Last error: ''
            @ (case last_error of None \<Rightarrow> ''None'' | Some e \<Rightarrow> e)),
      w\<lparr>counters := bump ''total_failure'' (counters w)\<rparr>)"
| "try_strategies md5 handlers url proxy options start_time (x # xs) last_error w =
     (if \<not> enabled x
      then try_strategies md5 handlers url proxy options start_time xs last_error w
      else
        let strategy_name = name x;
            w1 = w\<lparr>tried := tried w @ [strategy_name]\<rparr>;
            (outcome, spent) =
               wait_for (handlers strategy_name url (strategy_options proxy options)) (timeout x);
            w2 = w1\<lparr>clock := clock w1 + spent\<rparr>
        in case outcome of
             Returned result \<Rightarrow>
               if accepted result
               then
                 let w3 = w2\<lparr>service := record_success strategy_name (service w2)\<rparr>;
                     (_, cm) = cache_set md5 (cache w3) url (PDict (the result)) (Some 3600) (clock w3);
                     w4 = w3\<lparr>cache := cm,
                             counters := bump (''success_'' @ strategy_name)
                                           (bump ''total_success'' (counters w3))\<rparr>
                 in (Inr (PDict (the result)), w4)
               else try_strategies md5 handlers url proxy options start_time xs last_error w2
           | RaisedTimeout \<Rightarrow>
               try_strategies md5 handlers url proxy options start_time xs
                 (Some (''Strategy '' @ strategy_name @ '' timed out''))
                 (w2\<lparr>service := record_failure strategy_name (service w2)\<rparr>)
           | Raised e \<Rightarrow>
               try_strategies md5 handlers url proxy options start_time xs (Some e)
                 (w2\<lparr>service := record_failure strategy_name (service w2)\<rparr>))"

text \<open>The block that fetches a proxy when the options ask for one. \<open>rnd\<close> decides the random
  choice.\<close>

definition select_proxy :: "nat \<Rightarrow> world \<Rightarrow> pydict \<Rightarrow> string option \<times> world" where
  "select_proxy rnd w options =
     (if truthy (get_default options ''use_proxy'' (PBool False))
      then (case get_proxy (proxy_mgr w) None rnd (clock w) of
              (p, pm) \<Rightarrow> (p, w\<lparr>proxy_mgr := pm\<rparr>))
      else (None, w))"

text \<open>\<open>ParsingService.parse_video\<close>\<close>

definition parse_video ::
  "(string \<Rightarrow> string) \<Rightarrow> (string \<Rightarrow> string \<Rightarrow> pydict \<Rightarrow> behaviour) \<Rightarrow> nat \<Rightarrow> world \<Rightarrow> string
     \<Rightarrow> pydict option \<Rightarrow> (string + pyval) \<times> world" where
  "parse_video md5 handlers rnd w url options =
     (let start_time = clock w;
          options1 = (case options of None \<Rightarrow> [] | Some d \<Rightarrow> d);
          (cached_result, cm) = cache_get md5 (cache w) url (clock w);
          w1 = w\<lparr>cache := cm\<rparr>
      in if (case cached_result of None \<Rightarrow> False | Some v \<Rightarrow> truthy v)
            \<and> \<not> truthy (get_default options1 ''force_refresh'' (PBool False))
         then (Inr (the cached_result), w1\<lparr>counters := bump ''cache_hits'' (counters w1)\<rparr>)
         else
           case select_proxy rnd w1 options1 of (proxy, w2) \<Rightarrow>
             let sorted_strategies = sort_strategies_by_weight (service w2)
             in try_strategies md5 handlers url proxy options1 start_time sorted_strategies None w2)"

section \<open>The /batch\_parse endpoint (parsing\_service/app.py)\<close>








section \<open>Regular expressions of the form literal followed by a run of digits\<close>

text \<open>
  Every pattern the code searches for is a literal followed by a captured, greedy run of
  digits: \<open>lit(\d+)\<close> or \<open>lit(\d{lo,hi})\<close>. A pattern is the literal, the least length of
  the run and its greatest length if it has one. \<open>re.search\<close> tries the positions of the
  string from the left and returns the first match; group 1 is the run. Strings are
  sequences of 8-bit characters and a digit is one of \<open>0\<close> to \<open>9\<close>; the decimal digits of
  other scripts, which \<open>\d\<close> also accepts in Python, lie outside these characters.
\<close>

type_synonym pattern = "string \<times> nat \<times> nat option"

definition is_digit :: "char \<Rightarrow> bool" where
  "is_digit c = (c \<in> set ''0123456789'')"

definition match_at :: "pattern \<Rightarrow> string \<Rightarrow> string option" where
  "match_at p s =
     (case p of (lit, lo, hi) \<Rightarrow>
        let run = takeWhile is_digit (drop (length lit) s)
        in if take (length lit) s = lit \<and> lo \<le> length run
           then Some (case hi of None \<Rightarrow> run | Some h \<Rightarrow> take h run)
           else None)"

fun re_search :: "pattern \<Rightarrow> string \<Rightarrow> string option" where
  "re_search p [] = match_at p []"
| "re_search p (c # cs) =
     (case match_at p (c # cs) of Some g \<Rightarrow> Some g | None \<Rightarrow> re_search p cs)"

section \<open>BaseStrategy.extract\_video\_id (parsing\_service/strategies/base\_strategy.py)\<close>

definition patterns :: "pattern list" where
  "patterns =
     [(''/video/'', 1, None),
      (''/note/'', 1, None),
      (''modal_id='', 1, None),
      (''aweme_id='', 1, None),
      (''/'', 15, Some 20)]"

text \<open>\<open>sub in s\<close> on strings\<close>

fun substring :: "string \<Rightarrow> string \<Rightarrow> bool" where
  "substring sub [] = (sub = [])"
| "substring sub (c # cs) = (take (length sub) (c # cs) = sub \<or> substring sub cs)"

text \<open>The loop \<open>for pattern in patterns\<close>, and what follows it when no pattern has matched:
  both remaining paths return \<open>None\<close>.\<close>

fun first_match :: "pattern list \<Rightarrow> string \<Rightarrow> string option" where
  "first_match [] url = None"
| "first_match (p # ps) url =
     (case re_search p url of Some g \<Rightarrow> Some g | None \<Rightarrow> first_match ps url)"

definition extract_video_id :: "string \<Rightarrow> string option" where
  "extract_video_id url =
     (case first_match patterns url of
        Some g \<Rightarrow> Some g
      | None \<Rightarrow> if substring ''v.douyin.com'' url then None else None)"

section \<open>DouYinWebParser.\_resolve\_short\_url (web\_parser.py)\<close>

text \<open>
  The network is a parameter: \<open>http_get url\<close> is what \<open>requests.get(url, headers=...,
  allow_redirects=False)\<close> does, raise or return a response, of which only the header
  mapping is read. The function returns the resolved URL and the requests it has issued,
  each with its \<open>allow_redirects\<close> flag.
\<close>

datatype http_result = RequestFailed | HttpResponse "string \<rightharpoonup> string"

definition resolve_short_url ::
  "(string \<Rightarrow> http_result) \<Rightarrow> string \<Rightarrow> string \<times> (string \<times> bool) list" where
  "resolve_short_url http_get url =
     (case http_get url of
        RequestFailed \<Rightarrow> (url, [(url, False)])
      | HttpResponse headers \<Rightarrow>
          (case headers ''Location'' of
             None \<Rightarrow> (url, [(url, False)])
           | Some location \<Rightarrow>
               (case (case re_search (''/video/'', 1, None) location of
                        Some g \<Rightarrow> Some g
                      | None \<Rightarrow> re_search (''/share/video/'', 1, None) location) of
                  Some video_id \<Rightarrow> (''https://www.douyin.com/video/'' @ video_id, [(url, False)])
                | None \<Rightarrow> (location, [(url, False)]))))"

section \<open>DouYinDownloaderV3.download\_video (downloader\_v3.py)\<close>







text \<open>\<open>_sanitize_filename\<close>: the characters of \<open>[<>:"/\\|?*]\<close> are removed, the name is cut to
  50 characters and stripped of white space at both ends; an empty name becomes
  \<open>untitled\<close>. The white space that \<open>str.strip\<close> removes is, below 256, the characters 9 to
  13, 28 to 32, 133 and 160.\<close>

definition illegal_char :: "char \<Rightarrow> bool" where
  "illegal_char c = (c \<in> set (''<>:'' @ [CHR 0x22] @ ''/'' @ [CHR 0x5C] @ ''|?*''))"

definition is_space :: "char \<Rightarrow> bool" where
  "is_space c = (c \<in> set [CHR 0x09, CHR 0x0A, CHR 0x0B, CHR 0x0C, CHR 0x0D,
                            CHR 0x1C, CHR 0x1D, CHR 0x1E, CHR 0x1F, CHR 0x20,
                            CHR 0x85, CHR 0xA0])"

definition strip :: "string \<Rightarrow> string" where
  "strip s = rev (dropWhile is_space (rev (dropWhile is_space s)))"

definition sanitize_filename :: "string \<Rightarrow> string" where
  "sanitize_filename filename =
     (let f1 = filter (\<lambda>c. \<not> illegal_char c) filename;
          f2 = take 50 f1;
          f3 = strip f2
      in if f3 = [] then ''untitled'' else f3)"

text \<open>
  What the server does when the video is fetched with \<open>stream=True\<close>: the request raises,
  or the status is an error and \<open>raise_for_status\<close> raises, or a body follows. The body
  comes with a \<open>content-length\<close> header that \<open>int\<close> can read or cannot, and is a sequence
  of chunks after which the stream ends or raises. Opening the target file for writing can
  fail. Every exception raised here is an \<open>Exception\<close>, which the handler catches; removing
  the file that the call has just created succeeds.
\<close>

datatype download =
    GetRaises
  | BadStatus
  | Body bool "string list" bool


text \<open>The outcome of a call: it returns a truth value or an exception leaves it.\<close>

datatype outcome = Returns bool | Propagates











section \<open>The chain of strategies, described\<close>

text \<open>
  Notions used to state what \<open>parse_video\<close> does: the outcome of the attempt on one
  strategy under its time limit, whether that attempt yields an accepted record, the error
  it leaves in \<open>last_error\<close>, the last error left by a list of attempts, and the strategies
  that are attempted: the enabled ones, in order, up to and including the first that
  succeeds.
\<close>

definition attempt_of ::
  "(string \<Rightarrow> string \<Rightarrow> pydict \<Rightarrow> behaviour) \<Rightarrow> string \<Rightarrow> string option \<Rightarrow> pydict
     \<Rightarrow> scored_strategy \<Rightarrow> attempt \<times> rat" where
  "attempt_of handlers url proxy options x =
     wait_for (handlers (name x) url (strategy_options proxy options)) (timeout x)"

definition succeeds ::
  "(string \<Rightarrow> string \<Rightarrow> pydict \<Rightarrow> behaviour) \<Rightarrow> string \<Rightarrow> string option \<Rightarrow> pydict
     \<Rightarrow> scored_strategy \<Rightarrow> bool" where
  "succeeds handlers url proxy options x =
     (case fst (attempt_of handlers url proxy options x) of
        Returned result \<Rightarrow> accepted result | _ \<Rightarrow> False)"

definition error_of ::
  "(string \<Rightarrow> string \<Rightarrow> pydict \<Rightarrow> behaviour) \<Rightarrow> string \<Rightarrow> string option \<Rightarrow> pydict
     \<Rightarrow> scored_strategy \<Rightarrow> string option" where
  "error_of handlers url proxy options x =
     (case fst (attempt_of handlers url proxy options x) of
        Returned result \<Rightarrow> None
      | Raised e \<Rightarrow> Some e
      | RaisedTimeout \<Rightarrow> Some (''Strategy '' @ name x @ '' timed out''))"

fun last_error_of ::
  "(scored_strategy \<Rightarrow> string option) \<Rightarrow> scored_strategy list \<Rightarrow> string option \<Rightarrow> string option" where
  "last_error_of err [] last_error = last_error"
| "last_error_of err (x # xs) last_error =
     last_error_of err xs (case err x of None \<Rightarrow> last_error | Some e \<Rightarrow> Some e)"

fun attempted :: "(scored_strategy \<Rightarrow> bool) \<Rightarrow> scored_strategy list \<Rightarrow> scored_strategy list" where
  "attempted ok [] = []"
| "attempted ok (x # xs) =
     (if \<not> enabled x then attempted ok xs
      else if ok x then [x] else x # attempted ok xs)"


text \<open>The first test of \<open>parse_video\<close>: the cache holds a truthy value for the URL and the
  options do not ask for a refresh.\<close>

definition cache_hit :: "(string \<Rightarrow> string) \<Rightarrow> world \<Rightarrow> string \<Rightarrow> pydict option \<Rightarrow> bool" where
  "cache_hit md5 w url options =
     ((case fst (cache_get md5 (cache w) url (clock w)) of None \<Rightarrow> False | Some v \<Rightarrow> truthy v)
      \<and> \<not> truthy (get_default (case options of None \<Rightarrow> [] | Some d \<Rightarrow> d) ''force_refresh'' (PBool False)))"


section \<open>A concrete run\<close>

text \<open>
  A video URL, its MD5 digest (the hash is only ever applied to this URL below), a record
  that a handler may return, a world in which nothing has happened yet, handlers that all
  return the record after one second, handlers that all raise, and the world after one
  call of \<open>parse_video\<close> that succeeded.
\<close>

definition example_url :: string where
  "example_url = ''https://www.douyin.com/video/7549035040701844779''"

definition example_md5 :: "string \<Rightarrow> string" where
  "example_md5 s = (if s = example_url then ''b40e1bb9c6acfff1f51443baa7e6d96a'' else [])"

definition example_record :: pydict where
  "example_record =
     [(''video_id'', PStr ''7549035040701844779''), (''title'', PStr ''demo''),
      (''author'', PStr ''someone''), (''video_url'', PStr ''https://example.com/play.mp4'')]"

definition fresh_world :: world where
  "fresh_world =
     \<lparr>service = ParsingService_init True False,
      cache = CacheManager_init \<lparr>store = Map.empty, up = True\<rparr>,
      proxy_mgr = ProxyManager_init [],
      counters = (\<lambda>_. 0),
      clock = 0,
      tried = []\<rparr>"

definition handlers_ok :: "string \<Rightarrow> string \<Rightarrow> pydict \<Rightarrow> behaviour" where
  "handlers_ok nm url opts =
     \<lparr>finishes = Some (1, Returned (Some example_record)), cleanup = 0,
      after_cancel = RaisedTimeout\<rparr>"

definition handlers_down :: "string \<Rightarrow> string \<Rightarrow> pydict \<Rightarrow> behaviour" where
  "handlers_down nm url opts =
     \<lparr>finishes = Some (1, Raised ''connection refused''), cleanup = 0,
      after_cancel = RaisedTimeout\<rparr>"

text \<open>Handlers that never finish and need five seconds to end once they are cancelled.\<close>

definition handlers_hang :: "string \<Rightarrow> string \<Rightarrow> pydict \<Rightarrow> behaviour" where
  "handlers_hang nm url opts = \<lparr>finishes = None, cleanup = 5, after_cancel = RaisedTimeout\<rparr>"

definition warm_world :: world where
  "warm_world = snd (parse_video example_md5 handlers_ok 0 fresh_world example_url None)"

text \<open>A history after which \<open>api_with_signature\<close> has one success and four failures and
  \<open>playwright\<close> one success and one failure.\<close>

definition example_history :: "recording list" where
  "example_history =
     [Success ''api_with_signature'', Failure ''api_with_signature'',
      Failure ''api_with_signature'', Failure ''api_with_signature'',
      Failure ''api_with_signature'', Success ''playwright'', Failure ''playwright'']"


text \<open>The builtin \<open>str\<close> on strings, where it is the identity; and a scraped detail record.\<close>

definition example_str :: "pyval \<Rightarrow> string" where
  "example_str v = (case v of PStr s \<Rightarrow> s | _ \<Rightarrow> [])"

definition example_raw_data :: pydict where
  "example_raw_data =
     [(''aweme_detail'',
       PDict [(''aweme_id'', PStr ''7549035040701844779''),
              (''desc'', PStr ''demo''),
              (''author'', PDict [(''nickname'', PStr ''someone'')]),
              (''video'', PDict [(''play_addr'',
                                  PDict [(''url_list'', PList [PStr ''https://example.com/playwm/1'',
                                                               PStr ''https://example.com/playwm/2''])])])])]"




section \<open>What a search captures, said without the search\<close>

text \<open>
  An occurrence of a pattern in a string after the prefix \<open>pre\<close>: the literal stands right
  after \<open>pre\<close> and is followed by \<open>ds\<close>, the whole run of digits at that place, which is at
  least as long as the pattern asks. The pattern matches a string if it occurs in it; it
  captures \<open>g\<close> if \<open>g\<close> is the run of the leftmost occurrence, cut to the greatest length of
  the pattern.
\<close>

definition occurs :: "pattern \<Rightarrow> string \<Rightarrow> string \<Rightarrow> string \<Rightarrow> bool" where
  "occurs p pre ds s =
     (case p of (lit, lo, hi) \<Rightarrow>
        \<exists>rest. s = pre @ lit @ ds @ rest \<and> (\<forall>c \<in> set ds. is_digit c)
             \<and> (rest = [] \<or> \<not> is_digit (hd rest)) \<and> lo \<le> length ds)"

definition matches :: "pattern \<Rightarrow> string \<Rightarrow> bool" where
  "matches p s = (\<exists>pre ds. occurs p pre ds s)"

definition captures :: "pattern \<Rightarrow> string \<Rightarrow> string \<Rightarrow> bool" where
  "captures p s g =
     (\<exists>pre ds. occurs p pre ds s
        \<and> (\<forall>pre' ds'. occurs p pre' ds' s \<longrightarrow> length pre \<le> length pre')
        \<and> g = (case snd (snd p) of None \<Rightarrow> ds | Some h \<Rightarrow> take h ds))"


text \<open>A server that answers a short link with a redirect to the share page of a video.\<close>

definition example_redirect :: "string \<Rightarrow> http_result" where
  "example_redirect url =
     HttpResponse [''Location'' \<mapsto> ''https://www.iesdouyin.com/share/video/7549035040701844779/?region=CN'']"






section \<open>Properties\<close>

subsection \<open>Success and failure counts\<close>

lemma failure_counts_record_one:
  assumes "\<forall>n v. failure_counts s n = Some v \<longrightarrow> 0 \<le> v"
  shows "\<forall>n v. failure_counts (record_one e s) n = Some v \<longrightarrow> 0 \<le> v"
proof (cases e)
  case (Success m)
  then show ?thesis using assms
    by (auto simp: record_success_def Let_def split: option.splits)
next
  case (Failure m)
  then show ?thesis using assms
    by (auto simp: record_failure_def dict_get_def split: option.splits if_splits)
qed

lemma failure_counts_record_all:
  "\<forall>n v. failure_counts s n = Some v \<longrightarrow> 0 \<le> v \<Longrightarrow>
   \<forall>n v. failure_counts (record_all es s) n = Some v \<longrightarrow> 0 \<le> v"
proof (induction es arbitrary: s)
  case Nil
  then show ?case by simp
next
  case (Cons e es)
  have "\<forall>n v. failure_counts (record_one e s) n = Some v \<longrightarrow> 0 \<le> v"
    by (rule failure_counts_record_one[OF Cons.prems])
  from Cons.IH[OF this] show ?case by simp
qed

lemma success_counts_record_one:
  "dict_get (success_counts (record_one e s)) n 0 =
   dict_get (success_counts s) n 0 + (if e = Success n then 1 else 0)"
  by (cases e) (auto simp: record_success_def record_failure_def dict_get_def Let_def split: option.splits)

lemma success_counts_record_all:
  "dict_get (success_counts (record_all es s)) n 0 =
   dict_get (success_counts s) n 0 + int (count_list es (Success n))"
  by (induction es arbitrary: s) (auto simp: success_counts_record_one)

lemma record_failure_step:
  "dict_get (failure_counts (record_failure n s)) n 0 = dict_get (failure_counts s) n 0 + 1"
  by (simp add: record_failure_def dict_get_def)

lemma record_success_step:
  "dict_get (failure_counts (record_success n s)) n 0 = max 0 (dict_get (failure_counts s) n 0 - 1 / 2)"
  by (simp add: record_success_def dict_get_def Let_def split: option.splits)

text \<open>
  Claim C10. Starting from a freshly constructed \<open>ParsingService\<close>, after any sequence of
  success and failure recordings every value stored in \<open>failure_counts\<close> is non-negative and
  every success count is the number of successes recorded for that strategy; one
  \<open>_record_failure\<close> adds 1 to the strategy's failure count, and one \<open>_record_success\<close>
  takes one half off it, stopping at 0.
\<close>

theorem failure_counts_never_negative:
  "let s = record_all es (ParsingService_init pw sel) in
     (\<forall>n v. failure_counts s n = Some v \<longrightarrow> 0 \<le> v)
   \<and> (\<forall>n. dict_get (success_counts s) n 0 = int (count_list es (Success n)))
   \<and> (\<forall>n. dict_get (failure_counts (record_failure n s)) n 0 = dict_get (failure_counts s) n 0 + 1)
   \<and> (\<forall>n. dict_get (failure_counts (record_success n s)) n 0
            = max 0 (dict_get (failure_counts s) n 0 - 1 / 2))"
proof -
  have init: "\<forall>n v. failure_counts (ParsingService_init pw sel) n = Some v \<longrightarrow> 0 \<le> v"
    by (simp add: ParsingService_init_def)
  have s0: "\<And>n. dict_get (success_counts (ParsingService_init pw sel)) n 0 = 0"
    by (simp add: ParsingService_init_def dict_get_def)
  show ?thesis
    unfolding Let_def
    using failure_counts_record_all[OF init, of es]
    by (simp add: success_counts_record_all s0 record_failure_step record_success_step)
qed

theorem failure_counts_never_negative_witness:
  "failure_counts (record_all [Failure ''requests'', Success ''requests'']
      (ParsingService_init True False)) ''requests'' = Some (1 / 2) \<and> (0::rat) \<le> 1 / 2
   \<and> failure_counts (record_all [Failure ''requests'', Success ''requests'', Success ''requests'', Success ''requests'']
      (ParsingService_init True False)) ''requests'' = Some 0"
  using failure_counts_never_negative[of "[Failure ''requests'', Success ''requests'']" True False]
  by (simp add: record_success_def record_failure_def ParsingService_init_def dict_get_def Let_def)

subsection \<open>History of a strategy and its weight\<close>

lemma failure_counts_no_success:
  "Success n \<notin> set es \<Longrightarrow>
   dict_get (failure_counts (record_all es s)) n 0 =
   dict_get (failure_counts s) n 0 + of_nat (count_list es (Failure n))"
proof (induction es arbitrary: s)
  case Nil
  then show ?case by simp
next
  case (Cons e es)
  have step: "dict_get (failure_counts (record_one e s)) n 0 =
        dict_get (failure_counts s) n 0 + (if e = Failure n then 1 else 0)"
    using Cons.prems
    by (cases e) (auto simp: record_success_def record_failure_def dict_get_def Let_def split: option.splits)
  from Cons show ?case by (simp add: step)
qed

lemma record_all_static:
  "strategies (record_all es s) = strategies s \<and> strategy_weights (record_all es s) = strategy_weights s"
proof (induction es arbitrary: s)
  case Nil
  then show ?case by simp
next
  case (Cons e es)
  have "strategies (record_one e s) = strategies s \<and> strategy_weights (record_one e s) = strategy_weights s"
    by (cases e) (simp_all add: record_success_def record_failure_def Let_def split: option.splits)
  with Cons show ?case by simp
qed

lemma history_positive:
  fixes es pw sel n
  defines "s \<equiv> record_all es (ParsingService_init pw sel)"
  shows "(0 < of_int (dict_get (success_counts s) n 0) + dict_get (failure_counts s) n 0)
         \<longleftrightarrow> (Success n \<in> set es \<or> Failure n \<in> set es)"
proof -
  have init: "\<forall>n v. failure_counts (ParsingService_init pw sel) n = Some v \<longrightarrow> 0 \<le> v"
    by (simp add: ParsingService_init_def)
  have nonneg: "0 \<le> dict_get (failure_counts s) n 0"
    using failure_counts_record_all[OF init, of es]
    by (auto simp: s_def dict_get_def split: option.splits)
  have s0: "dict_get (success_counts (ParsingService_init pw sel)) n 0 = 0"
    by (simp add: ParsingService_init_def dict_get_def)
  have f0: "dict_get (failure_counts (ParsingService_init pw sel)) n 0 = 0"
    by (simp add: ParsingService_init_def dict_get_def)
  have sc: "dict_get (success_counts s) n 0 = int (count_list es (Success n))"
    unfolding s_def success_counts_record_all s0 by simp
  show ?thesis
  proof (cases "Success n \<in> set es")
    case True
    then have "0 < count_list es (Success n)" using count_list_0_iff[of es "Success n"] by simp
    with sc nonneg True show ?thesis by simp
  next
    case False
    then have sc0: "dict_get (success_counts s) n 0 = 0" using sc by (simp add: count_list_0_iff)
    have fc: "dict_get (failure_counts s) n 0 = of_nat (count_list es (Failure n))"
      unfolding s_def failure_counts_no_success[OF False] f0 by simp
    show ?thesis
    proof (cases "Failure n \<in> set es")
      case True
      then have "0 < count_list es (Failure n)" using count_list_0_iff[of es "Failure n"] by simp
      with fc sc0 True show ?thesis by simp
    next
      case F2: False
      then have "count_list es (Failure n) = 0" by (simp add: count_list_0_iff)
      with fc sc0 False F2 show ?thesis by simp
    qed
  qed
qed

lemma sort_descending:
  "sorted_wrt (\<lambda>a b. score b \<le> score a) (sort_key (\<lambda>x. - score x) xs)"
proof -
  have "sorted (map (\<lambda>x. - score x) (sort_key (\<lambda>x. - score x) xs))" by (rule sorted_sort_key)
  then show ?thesis by (simp add: sorted_map)
qed

lemma initial_names:
  "x \<in> set (initialize_strategies pw sel) \<Longrightarrow>
   name x \<in> {''api_with_signature'', ''playwright'', ''selenium'', ''requests''}"
  by (auto simp: initialize_strategies_def split: if_splits)

subsection \<open>Float values\<close>

lemma double_1: "double 1 = 1"
  by code_simp

lemma double_half: "double (1 / 2) = 1 / 2"
  by code_simp

lemma double_08: "double (8 / 10) = 3602879701896397 / 4503599627370496"
  by code_simp

lemma double_06: "double (6 / 10) = 5404319552844595 / 9007199254740992"
  by code_simp

lemma double_04: "double (4 / 10) = 3602879701896397 / 9007199254740992"
  by code_simp

lemma double_four_fifths: "double (4 / 5) = 3602879701896397 / 4503599627370496"
  by code_simp

lemma double_three_fifths: "double (3 / 5) = 5404319552844595 / 9007199254740992"
  by code_simp

lemma double_two_fifths: "double (2 / 5) = 3602879701896397 / 9007199254740992"
  by code_simp

lemma fdiv_1_1: "fdiv 1 1 = 1"
  by code_simp

lemma fdiv_1_2: "fdiv 1 2 = 1 / 2"
  by code_simp

lemma fdiv_1_5: "fdiv 1 5 = 3602879701896397 / 18014398509481984"
  by code_simp

lemma fmul_1_1: "fmul 1 1 = 1"
  by code_simp

lemma fmul_1_half: "fmul 1 (1 / 2) = 1 / 2"
  by code_simp

lemma fmul_half_half: "fmul (1 / 2) (1 / 2) = 1 / 4"
  by code_simp

lemma fmul_fifth_half:
  "fmul (3602879701896397 / 18014398509481984) (1 / 2) = 3602879701896397 / 36028797018963968"
  by code_simp

lemma fadd_half_half: "fadd (1 / 2) (1 / 2) = 1"
  by code_simp

lemma fadd_half_quarter: "fadd (1 / 2) (1 / 4) = 3 / 4"
  by code_simp

lemma fadd_half_tenth:
  "fadd (1 / 2) (3602879701896397 / 36028797018963968) = 5404319552844595 / 9007199254740992"
  by code_simp

lemma fmul_1_06:
  "fmul 1 (5404319552844595 / 9007199254740992) = 5404319552844595 / 9007199254740992"
  by code_simp

lemma fmul_08_1:
  "fmul (3602879701896397 / 4503599627370496) 1 = 3602879701896397 / 4503599627370496"
  by code_simp

lemma fmul_08_075:
  "fmul (3602879701896397 / 4503599627370496) (3 / 4) = 1351079888211149 / 2251799813685248"
  by code_simp

subsection \<open>The loop over the strategies\<close>

lemma try_strategies_result:
  "fst (try_strategies md5 handlers url proxy options t0 xs last_error w) =
     (case find (succeeds handlers url proxy options) (filter enabled xs) of
        Some x \<Rightarrow> (case fst (attempt_of handlers url proxy options x) of
                     Returned result \<Rightarrow> Inr (PDict (the result)) | _ \<Rightarrow> Inl [])
      | None \<Rightarrow> Inl (''All strategies failed. Last error: ''
                     @ (case last_error_of (error_of handlers url proxy options) (filter enabled xs) last_error of
                          None \<Rightarrow> ''None'' | Some e \<Rightarrow> e)))"
proof (induction xs arbitrary: last_error w)
  case Nil
  show ?case by simp
next
  case (Cons x xs)
  show ?case
  proof (cases "enabled x")
    case False
    then show ?thesis using Cons.IH by (simp cong: option.case_cong)
  next
    case True
    obtain a spent where ws: "wait_for (handlers (name x) url (strategy_options proxy options)) (timeout x) = (a, spent)"
      by (cases "wait_for (handlers (name x) url (strategy_options proxy options)) (timeout x)")
    show ?thesis
    proof (cases a)
      case (Returned result)
      show ?thesis
      proof (cases "accepted result")
        case A: True
        with True ws Returned show ?thesis
          by (simp add: succeeds_def attempt_of_def Let_def split: prod.splits)
      next
        case A: False
        with True ws Returned show ?thesis
          by (simp add: succeeds_def attempt_of_def error_of_def Let_def Cons.IH cong: option.case_cong)
      qed
    next
      case (Raised e)
      with True ws show ?thesis
        by (simp add: succeeds_def attempt_of_def error_of_def Let_def Cons.IH cong: option.case_cong)
    next
      case RaisedTimeout
      with True ws show ?thesis
        by (simp add: succeeds_def attempt_of_def error_of_def Let_def Cons.IH cong: option.case_cong)
    qed
  qed
qed

lemma try_strategies_tried:
  "tried (snd (try_strategies md5 handlers url proxy options t0 xs last_error w)) =
     tried w @ map name (attempted (succeeds handlers url proxy options) xs)"
proof (induction xs arbitrary: last_error w)
  case Nil
  show ?case by simp
next
  case (Cons x xs)
  show ?case
  proof (cases "enabled x")
    case False
    then show ?thesis using Cons.IH by simp
  next
    case True
    obtain a spent where ws: "wait_for (handlers (name x) url (strategy_options proxy options)) (timeout x) = (a, spent)"
      by (cases "wait_for (handlers (name x) url (strategy_options proxy options)) (timeout x)")
    show ?thesis
    proof (cases a)
      case (Returned result)
      show ?thesis
      proof (cases "accepted result")
        case A: True
        with True ws Returned show ?thesis
          by (simp add: succeeds_def attempt_of_def Let_def split: prod.splits)
      next
        case A: False
        with True ws Returned show ?thesis
          by (simp add: succeeds_def attempt_of_def error_of_def Let_def Cons.IH)
      qed
    next
      case (Raised e)
      with True ws show ?thesis
        by (simp add: succeeds_def attempt_of_def error_of_def Let_def Cons.IH)
    next
      case RaisedTimeout
      with True ws show ?thesis
        by (simp add: succeeds_def attempt_of_def error_of_def Let_def Cons.IH)
    qed
  qed
qed

lemma try_strategies_clock:
  "clock (snd (try_strategies md5 handlers url proxy options t0 xs last_error w)) =
     clock w + sum_list (map (\<lambda>x. snd (attempt_of handlers url proxy options x))
                           (attempted (succeeds handlers url proxy options) xs))"
proof (induction xs arbitrary: last_error w)
  case Nil
  show ?case by simp
next
  case (Cons x xs)
  show ?case
  proof (cases "enabled x")
    case False
    then show ?thesis using Cons.IH by simp
  next
    case True
    obtain a spent where ws: "wait_for (handlers (name x) url (strategy_options proxy options)) (timeout x) = (a, spent)"
      by (cases "wait_for (handlers (name x) url (strategy_options proxy options)) (timeout x)")
    show ?thesis
    proof (cases a)
      case (Returned result)
      show ?thesis
      proof (cases "accepted result")
        case A: True
        with True ws Returned show ?thesis
          by (simp add: succeeds_def attempt_of_def Let_def split: prod.splits)
      next
        case A: False
        with True ws Returned show ?thesis
          by (simp add: succeeds_def attempt_of_def error_of_def Let_def Cons.IH)
      qed
    next
      case (Raised e)
      with True ws show ?thesis
        by (simp add: succeeds_def attempt_of_def error_of_def Let_def Cons.IH)
    next
      case RaisedTimeout
      with True ws show ?thesis
        by (simp add: succeeds_def attempt_of_def error_of_def Let_def Cons.IH)
    qed
  qed
qed

subsection \<open>The order of the strategies\<close>


lemma attempted_prefix: "\<exists>k. attempted ok xs = take k (filter enabled xs)"
proof (induction xs)
  case Nil
  show ?case by simp
next
  case (Cons x xs)
  then obtain k where k: "attempted ok xs = take k (filter enabled xs)" by blast
  show ?case
  proof (cases "enabled x")
    case False
    with k show ?thesis by auto
  next
    case True
    show ?thesis
    proof (cases "ok x")
      case T: True
      have "attempted ok (x # xs) = take (Suc 0) (filter enabled (x # xs))"
        using True T by simp
      then show ?thesis by blast
    next
      case F: False
      have "attempted ok (x # xs) = take (Suc k) (filter enabled (x # xs))"
        using True F k by simp
      then show ?thesis by blast
    qed
  qed
qed

lemma select_proxy_keeps:
  "service (snd (select_proxy rnd w options)) = service w"
  "tried (snd (select_proxy rnd w options)) = tried w"
  "clock (snd (select_proxy rnd w options)) = clock w"
  "cache (snd (select_proxy rnd w options)) = cache w"
  "counters (snd (select_proxy rnd w options)) = counters w"
  by (simp_all add: select_proxy_def split: prod.splits)

lemma parse_video_hit:
  "cache_hit md5 w url options \<Longrightarrow>
   parse_video md5 handlers rnd w url options =
     (Inr (the (fst (cache_get md5 (cache w) url (clock w)))),
      w\<lparr>cache := snd (cache_get md5 (cache w) url (clock w)),
        counters := bump ''cache_hits'' (counters w)\<rparr>)"
  by (simp add: parse_video_def cache_hit_def Let_def case_prod_beta)

lemma parse_video_miss:
  "\<not> cache_hit md5 w url options \<Longrightarrow>
   parse_video md5 handlers rnd w url options =
     (let options1 = (case options of None \<Rightarrow> [] | Some d \<Rightarrow> d);
          w1 = w\<lparr>cache := snd (cache_get md5 (cache w) url (clock w))\<rparr>;
          proxy = fst (select_proxy rnd w1 options1);
          w2 = snd (select_proxy rnd w1 options1)
      in try_strategies md5 handlers url proxy options1 (clock w)
           (sort_strategies_by_weight (service w)) None w2)"
  by (auto simp add: parse_video_def cache_hit_def Let_def case_prod_beta select_proxy_keeps)

lemma parse_video_tried:
  "\<exists>k. tried (snd (parse_video md5 handlers rnd w url options)) =
        tried w @ take k (map name (filter enabled (sort_strategies_by_weight (service w))))"
proof (cases "cache_hit md5 w url options")
  case True
  have "tried (snd (parse_video md5 handlers rnd w url options)) =
        tried w @ take 0 (map name (filter enabled (sort_strategies_by_weight (service w))))"
    by (simp add: parse_video_hit[OF True])
  then show ?thesis by blast
next
  case False
  define options1 where "options1 = (case options of None \<Rightarrow> [] | Some d \<Rightarrow> d)"
  define w1 where "w1 = w\<lparr>cache := snd (cache_get md5 (cache w) url (clock w))\<rparr>"
  obtain k where k: "attempted (succeeds handlers url (fst (select_proxy rnd w1 options1)) options1)
         (sort_strategies_by_weight (service w)) =
         take k (filter enabled (sort_strategies_by_weight (service w)))"
    using attempted_prefix by blast
  have "tried (snd (parse_video md5 handlers rnd w url options)) =
        tried w @ take k (map name (filter enabled (sort_strategies_by_weight (service w))))"
    unfolding parse_video_miss[OF False] Let_def options1_def[symmetric] w1_def[symmetric]
      try_strategies_tried k
    by (simp add: select_proxy_keeps w1_def take_map)
  then show ?thesis by blast
qed

text \<open>
  Claim C2. After any history of fewer than \<open>2^51\<close> recordings on a freshly constructed
  service (the histories for which Python holds the counts exactly), the list that
  \<open>_sort_strategies_by_weight\<close> returns is in descending order of score, holds the same
  strategies as \<open>self.strategies\<close>, and keeps strategies of equal score in their original
  order. The score of a strategy that has a recorded success or failure is, in float
  arithmetic, its base weight times \<open>0.5 + success_rate * 0.5\<close> with \<open>success_rate\<close> the
  quotient of its success count by the sum of its two counts, that sum being positive; the
  score of a strategy without history is its base weight. The base weights are the floats
  1.0, 0.8, 0.6 and 0.4. The strategies that \<open>parse_video\<close> tries are an initial segment of
  the enabled strategies of that list.
\<close>

theorem sort_strategies_by_weight_descending:
  "length es < 2 ^ 51 \<longrightarrow>
   (let s = record_all es (ParsingService_init pw sel);
        sorted_strategies = sort_strategies_by_weight s
    in sorted_wrt (\<lambda>a b. score a \<ge> score b) sorted_strategies
     \<and> mset sorted_strategies = mset (map (with_score s) (strategies s))
     \<and> (\<forall>k. filter (\<lambda>x. score x = k) sorted_strategies
            = filter (\<lambda>x. score x = k) (map (with_score s) (strategies s)))
     \<and> (\<forall>x \<in> set sorted_strategies.
           let base_weight = dict_get initialize_weights (name x) (double (1 / 2));
               successes = of_int (dict_get (success_counts s) (name x) 0);
               failures = dict_get (failure_counts s) (name x) 0
           in name x \<in> dom initialize_weights
            \<and> (if Success (name x) \<in> set es \<or> Failure (name x) \<in> set es
                then 0 < successes + failures
                   \<and> score x = fmul base_weight
                                 (fadd (double (1 / 2))
                                    (fmul (fdiv successes (successes + failures)) (double (1 / 2))))
                else score x = base_weight))
     \<and> initialize_weights ''api_with_signature'' = Some (double 1)
     \<and> initialize_weights ''playwright'' = Some (double (8 / 10))
     \<and> initialize_weights ''selenium'' = Some (double (6 / 10))
     \<and> initialize_weights ''requests'' = Some (double (4 / 10))
     \<and> (\<forall>md5 handlers rnd w url options. service w = s \<longrightarrow>
           (\<exists>k. tried (snd (parse_video md5 handlers rnd w url options))
                  = tried w @ take k (map name (filter enabled sorted_strategies)))))"
proof
  assume "length es < 2 ^ 51"
  define s where "s = record_all es (ParsingService_init pw sel)"
  define sorted_strategies where "sorted_strategies = sort_strategies_by_weight s"
  have static: "strategies s = initialize_strategies pw sel" "strategy_weights s = initialize_weights"
    using record_all_static[of es "ParsingService_init pw sel"]
    by (simp_all add: s_def ParsingService_init_def)
  have c1: "sorted_wrt (\<lambda>a b. score a \<ge> score b) sorted_strategies"
    unfolding sorted_strategies_def sort_strategies_by_weight_def by (rule sort_descending)
  have c2: "mset sorted_strategies = mset (map (with_score s) (strategies s))"
    unfolding sorted_strategies_def sort_strategies_by_weight_def by simp
  have c3: "\<forall>k. filter (\<lambda>x. score x = k) sorted_strategies
           = filter (\<lambda>x. score x = k) (map (with_score s) (strategies s))"
  proof
    fix k
    have "filter (\<lambda>x. - score x = - k) (sort_key (\<lambda>x. - score x) (map (with_score s) (strategies s)))
        = filter (\<lambda>x. - score x = - k) (map (with_score s) (strategies s))"
      by (rule sort_key_stable)
    then show "filter (\<lambda>x. score x = k) sorted_strategies
           = filter (\<lambda>x. score x = k) (map (with_score s) (strategies s))"
      by (simp add: sorted_strategies_def sort_strategies_by_weight_def)
  qed
  have c4: "\<forall>x \<in> set sorted_strategies.
           let base_weight = dict_get initialize_weights (name x) (double (1 / 2));
               successes = of_int (dict_get (success_counts s) (name x) 0);
               failures = dict_get (failure_counts s) (name x) 0
           in name x \<in> dom initialize_weights
            \<and> (if Success (name x) \<in> set es \<or> Failure (name x) \<in> set es
                then 0 < successes + failures
                   \<and> score x = fmul base_weight
                                 (fadd (double (1 / 2))
                                    (fmul (fdiv successes (successes + failures)) (double (1 / 2))))
                else score x = base_weight)"
  proof
    fix x assume "x \<in> set sorted_strategies"
    then have "x \<in> set (map (with_score s) (strategies s))"
      by (simp add: sorted_strategies_def sort_strategies_by_weight_def)
    then obtain st where st: "st \<in> set (initialize_strategies pw sel)" "x = with_score s st"
      using static by auto
    have nm: "name x = name st" and sc: "score x = dynamic_weight s (name st)"
      using st(2) by (simp_all add: with_score_def strategy.extend_def)
    have dom: "name x \<in> dom initialize_weights"
      using initial_names[OF st(1)] nm by (auto simp: initialize_weights_def)
    have hist: "(0 < of_int (dict_get (success_counts s) (name x) 0) + dict_get (failure_counts s) (name x) 0)
         \<longleftrightarrow> (Success (name x) \<in> set es \<or> Failure (name x) \<in> set es)"
      unfolding s_def by (rule history_positive)
    show "let base_weight = dict_get initialize_weights (name x) (double (1 / 2));
               successes = of_int (dict_get (success_counts s) (name x) 0);
               failures = dict_get (failure_counts s) (name x) 0
           in name x \<in> dom initialize_weights
            \<and> (if Success (name x) \<in> set es \<or> Failure (name x) \<in> set es
                then 0 < successes + failures
                   \<and> score x = fmul base_weight
                                 (fadd (double (1 / 2))
                                    (fmul (fdiv successes (successes + failures)) (double (1 / 2))))
                else score x = base_weight)"
      unfolding Let_def using dom hist sc nm static(2)
      by (simp add: dynamic_weight_def Let_def)
  qed
  have c5: "initialize_weights ''api_with_signature'' = Some (double 1)
    \<and> initialize_weights ''playwright'' = Some (double (8 / 10))
    \<and> initialize_weights ''selenium'' = Some (double (6 / 10))
    \<and> initialize_weights ''requests'' = Some (double (4 / 10))"
    by (simp add: initialize_weights_def)
  have c6: "\<forall>md5 handlers rnd w url options. service w = s \<longrightarrow>
          (\<exists>k. tried (snd (parse_video md5 handlers rnd w url options))
                 = tried w @ take k (map name (filter enabled sorted_strategies)))"
    using parse_video_tried by (auto simp: sorted_strategies_def)
  show "let s = record_all es (ParsingService_init pw sel);
        sorted_strategies = sort_strategies_by_weight s
    in sorted_wrt (\<lambda>a b. score a \<ge> score b) sorted_strategies
     \<and> mset sorted_strategies = mset (map (with_score s) (strategies s))
     \<and> (\<forall>k. filter (\<lambda>x. score x = k) sorted_strategies
            = filter (\<lambda>x. score x = k) (map (with_score s) (strategies s)))
     \<and> (\<forall>x \<in> set sorted_strategies.
           let base_weight = dict_get initialize_weights (name x) (double (1 / 2));
               successes = of_int (dict_get (success_counts s) (name x) 0);
               failures = dict_get (failure_counts s) (name x) 0
           in name x \<in> dom initialize_weights
            \<and> (if Success (name x) \<in> set es \<or> Failure (name x) \<in> set es
                then 0 < successes + failures
                   \<and> score x = fmul base_weight
                                 (fadd (double (1 / 2))
                                    (fmul (fdiv successes (successes + failures)) (double (1 / 2))))
                else score x = base_weight))
     \<and> initialize_weights ''api_with_signature'' = Some (double 1)
     \<and> initialize_weights ''playwright'' = Some (double (8 / 10))
     \<and> initialize_weights ''selenium'' = Some (double (6 / 10))
     \<and> initialize_weights ''requests'' = Some (double (4 / 10))
     \<and> (\<forall>md5 handlers rnd w url options. service w = s \<longrightarrow>
           (\<exists>k. tried (snd (parse_video md5 handlers rnd w url options))
                  = tried w @ take k (map name (filter enabled sorted_strategies))))"
    unfolding Let_def s_def[symmetric] sorted_strategies_def[symmetric]
    using c1 c2 c3 c4 c5 c6 unfolding Let_def by blast
qed

lemma example_history_weights:
  "dynamic_weight (record_all example_history (ParsingService_init True False)) ''api_with_signature''
     = 5404319552844595 / 9007199254740992"
  "dynamic_weight (record_all example_history (ParsingService_init True False)) ''playwright''
     = 1351079888211149 / 2251799813685248"
  "dynamic_weight (record_all example_history (ParsingService_init True False)) ''requests''
     = 3602879701896397 / 9007199254740992"
  by (simp_all add: example_history_def dynamic_weight_def record_success_def record_failure_def
        ParsingService_init_def initialize_weights_def dict_get_def Let_def
        double_1 double_half double_four_fifths double_two_fifths
        fdiv_1_5 fmul_fifth_half fadd_half_tenth fmul_1_06
        fdiv_1_2 fmul_half_half fadd_half_quarter fmul_08_075)

lemma example_history_sorted:
  "sort_strategies_by_weight (record_all example_history (ParsingService_init True False)) =
     [\<lparr>name = ''playwright'', priority = 2, timeout = 30, enabled = True,
       score = 1351079888211149 / 2251799813685248\<rparr>,
      \<lparr>name = ''api_with_signature'', priority = 1, timeout = 10, enabled = True,
       score = 5404319552844595 / 9007199254740992\<rparr>,
      \<lparr>name = ''requests'', priority = 4, timeout = 15, enabled = True,
       score = 3602879701896397 / 9007199254740992\<rparr>]"
proof -
  have st: "strategies (record_all example_history (ParsingService_init True False))
      = initialize_strategies True False"
    using record_all_static[of example_history "ParsingService_init True False"]
    by (simp add: ParsingService_init_def)
  show ?thesis
    unfolding sort_strategies_by_weight_def st
    by (simp add: initialize_strategies_def with_score_def example_history_weights
          strategy.extend_def)
qed

theorem sort_strategies_by_weight_descending_witness:
  "length example_history < 2 ^ 51
   \<and> map name (sort_strategies_by_weight
        (record_all example_history (ParsingService_init True False)))
     = [''playwright'', ''api_with_signature'', ''requests'']
   \<and> map score (sort_strategies_by_weight
        (record_all example_history (ParsingService_init True False)))
     = [1351079888211149 / 2251799813685248, 5404319552844595 / 9007199254740992,
        3602879701896397 / 9007199254740992]
   \<and> sorted_wrt (\<lambda>a b. score a \<ge> score b) (sort_strategies_by_weight
        (record_all example_history (ParsingService_init True False)))"
proof -
  have l: "length example_history < 2 ^ 51" by (simp add: example_history_def)
  from sort_strategies_by_weight_descending[of example_history True False] l
  have "sorted_wrt (\<lambda>a b. score a \<ge> score b) (sort_strategies_by_weight
        (record_all example_history (ParsingService_init True False)))"
    unfolding Let_def by blast
  with l show ?thesis by (simp add: example_history_sorted)
qed

subsection \<open>parse\_video: the chain and the cache\<close>

lemma example_accepted: "accepted (Some example_record)"
  by (simp add: accepted_def validate_result_def example_record_def contains_def getitem_def)

lemma fresh_sorted:
  "sort_strategies_by_weight (service fresh_world) =
     [\<lparr>name = ''api_with_signature'', priority = 1, timeout = 10, enabled = True, score = 1\<rparr>,
      \<lparr>name = ''playwright'', priority = 2, timeout = 30, enabled = True,
       score = 3602879701896397 / 4503599627370496\<rparr>,
      \<lparr>name = ''requests'', priority = 4, timeout = 15, enabled = True,
       score = 3602879701896397 / 9007199254740992\<rparr>]"
  by (simp add: sort_strategies_by_weight_def with_score_def dynamic_weight_def fresh_world_def
        ParsingService_init_def initialize_strategies_def initialize_weights_def dict_get_def
        strategy.extend_def Let_def double_1 double_four_fifths double_two_fifths)

lemma fresh_miss: "\<not> cache_hit example_md5 fresh_world example_url None"
  by (simp add: cache_hit_def cache_get_def redis_get_def fresh_world_def CacheManager_init_def)

lemma warm_world_eq:
  "warm_world =
     \<lparr>service = record_success ''api_with_signature'' (ParsingService_init True False),
      cache = \<lparr>redis_client =
                 \<lparr>store = [''douyin:cache:url:b40e1bb9c6acfff1f51443baa7e6d96a'' \<mapsto>
                             (PDict [(''value'', PDict example_record), (''cached_at'', PFloat 1),
                                     (''ttl'', PInt 3600)], 3601)],
                  up = True\<rparr>,
               prefix = ''douyin:cache:'', default_ttl = 3600,
               hits = 0, misses = 1, sets = 1, deletes = 0\<rparr>,
      proxy_mgr = ProxyManager_init [],
      counters = bump ''success_api_with_signature'' (bump ''total_success'' (\<lambda>_. 0)),
      clock = 1,
      tried = [''api_with_signature'']\<rparr>"
  unfolding warm_world_def parse_video_miss[OF fresh_miss] Let_def
  apply (simp add: select_proxy_def get_default_def fresh_sorted)
  apply (simp add: fresh_world_def cache_get_def redis_get_def CacheManager_init_def handlers_ok_def
       wait_for_def example_accepted Let_def cache_set_def redis_setex_def make_key_def example_md5_def example_url_def)
  done

lemma attempted_takeWhile:
  "attempted ok xs =
     takeWhile (\<lambda>x. \<not> ok x) (filter enabled xs) @ take 1 (dropWhile (\<lambda>x. \<not> ok x) (filter enabled xs))"
  by (induction xs) auto

lemma last_error_of_last:
  "last_error_of err xs init =
     (case filter (\<lambda>x. err x \<noteq> None) xs of [] \<Rightarrow> init | y # ys \<Rightarrow> err (last (y # ys)))"
proof (induction xs arbitrary: init)
  case Nil
  show ?case by simp
next
  case (Cons x xs)
  show ?case
  proof (cases "err x")
    case None
    then show ?thesis using Cons.IH[of init] by simp
  next
    case (Some e)
    then show ?thesis using Cons.IH[of "Some e"] by (simp split: list.splits)
  qed
qed

lemma select_proxy_cache:
  "fst (select_proxy rnd (w\<lparr>cache := c\<rparr>) options) = fst (select_proxy rnd w options)"
  by (simp add: select_proxy_def split: prod.splits)

lemma find_succeeds_accepted:
  "find (succeeds handlers url proxy options) xs = Some x \<Longrightarrow>
   \<exists>d. fst (attempt_of handlers url proxy options x) = Returned (Some d) \<and> accepted (Some d)"
proof -
  assume "find (succeeds handlers url proxy options) xs = Some x"
  then have "succeeds handlers url proxy options x" by (auto simp: find_Some_iff)
  then show ?thesis
    by (auto simp: succeeds_def accepted_def split: attempt.splits option.splits)
qed

lemma wait_for_cases:
  "(\<forall>d a. finishes b = Some (d, a) \<and> d < of_int limit \<longrightarrow> wait_for b limit = (a, d))
   \<and> ((\<forall>d a. finishes b = Some (d, a) \<longrightarrow> of_int limit \<le> d) \<longrightarrow>
        wait_for b limit = (after_cancel b, of_int limit + cleanup b))"
  by (cases "finishes b") (auto simp: wait_for_def)

text \<open>
  Claim C1, amended. On a service that has had fewer than \<open>2^51\<close> recordings since its
  construction, and unless the call ends at once with a cache hit (a truthy cached value
  and no \<open>force_refresh\<close>), \<open>parse_video\<close> tries the enabled strategies of the sorted list
  one after the other, up to and including the first whose attempt yields an accepted
  record. Each attempt runs under the time limit of its strategy: a handler that finishes
  before the limit decides the outcome, a handler that has not is cancelled at the limit,
  and the attempt ends when the cancelled handler has ended. If some strategy yields an
  accepted record, the record of the first such strategy is returned. Otherwise an
  exception is raised whose message is \<open>All strategies failed. Last error:\<close> followed by the
  error of the last strategy that raised or timed out, or by \<open>None\<close> if none did.
\<close>

theorem parse_video_strategy_chain:
  assumes "service w = record_all es (ParsingService_init pw sel)" "length es < 2 ^ 51"
    and "\<not> cache_hit md5 w url options"
  shows "let options1 = (case options of None \<Rightarrow> [] | Some d \<Rightarrow> d);
             proxy = fst (select_proxy rnd w options1);
             chain = filter enabled (sort_strategies_by_weight (service w));
             ok = succeeds handlers url proxy options1;
             attempts = takeWhile (\<lambda>x. \<not> ok x) chain @ take 1 (dropWhile (\<lambda>x. \<not> ok x) chain);
             r = fst (parse_video md5 handlers rnd w url options);
             w' = snd (parse_video md5 handlers rnd w url options)
         in tried w' = tried w @ map name attempts
          \<and> (\<forall>x \<in> set chain.
                let b = handlers (name x) url (strategy_options proxy options1)
                in (\<forall>d a. finishes b = Some (d, a) \<and> d < of_int (timeout x) \<longrightarrow>
                      attempt_of handlers url proxy options1 x = (a, d))
                 \<and> ((\<forall>d a. finishes b = Some (d, a) \<longrightarrow> of_int (timeout x) \<le> d) \<longrightarrow>
                      attempt_of handlers url proxy options1 x
                        = (after_cancel b, of_int (timeout x) + cleanup b)))
          \<and> clock w' = clock w + sum_list (map (\<lambda>x. snd (attempt_of handlers url proxy options1 x)) attempts)
          \<and> (case find ok chain of
                Some x \<Rightarrow> (\<exists>d. fst (attempt_of handlers url proxy options1 x) = Returned (Some d)
                               \<and> accepted (Some d) \<and> r = Inr (PDict d))
              | None \<Rightarrow>
                  r = Inl (''All strategies failed. Last error: ''
                           @ (case filter (\<lambda>x. error_of handlers url proxy options1 x \<noteq> None) chain of
                                [] \<Rightarrow> ''None''
                              | y # ys \<Rightarrow> the (error_of handlers url proxy options1 (last (y # ys))))))"
proof -
  define options1 where "options1 = (case options of None \<Rightarrow> [] | Some d \<Rightarrow> d)"
  define proxy where "proxy = fst (select_proxy rnd w options1)"
  define chain where "chain = filter enabled (sort_strategies_by_weight (service w))"
  define ok where "ok = succeeds handlers url proxy options1"
  define attempts where
    "attempts = takeWhile (\<lambda>x. \<not> ok x) chain @ take 1 (dropWhile (\<lambda>x. \<not> ok x) chain)"
  define w1 where "w1 = w\<lparr>cache := snd (cache_get md5 (cache w) url (clock w))\<rparr>"
  define w2 where "w2 = snd (select_proxy rnd w1 options1)"
  have pv: "parse_video md5 handlers rnd w url options =
      try_strategies md5 handlers url proxy options1 (clock w)
        (sort_strategies_by_weight (service w)) None w2"
    unfolding parse_video_miss[OF assms(3)] Let_def
    by (simp add: options1_def proxy_def w2_def w1_def select_proxy_cache)
  have w2: "tried w2 = tried w" "clock w2 = clock w"
    by (simp_all add: w2_def w1_def select_proxy_keeps)
  have att: "attempted ok (sort_strategies_by_weight (service w)) = attempts"
    unfolding attempts_def chain_def by (rule attempted_takeWhile)
  have c1: "tried (snd (parse_video md5 handlers rnd w url options)) = tried w @ map name attempts"
    unfolding pv try_strategies_tried using att by (simp add: ok_def w2)
  have c2: "\<forall>x \<in> set chain.
                let b = handlers (name x) url (strategy_options proxy options1)
                in (\<forall>d a. finishes b = Some (d, a) \<and> d < of_int (timeout x) \<longrightarrow>
                      attempt_of handlers url proxy options1 x = (a, d))
                 \<and> ((\<forall>d a. finishes b = Some (d, a) \<longrightarrow> of_int (timeout x) \<le> d) \<longrightarrow>
                      attempt_of handlers url proxy options1 x
                        = (after_cancel b, of_int (timeout x) + cleanup b))"
    unfolding Let_def attempt_of_def using wait_for_cases by blast
  have c3: "clock (snd (parse_video md5 handlers rnd w url options)) =
      clock w + sum_list (map (\<lambda>x. snd (attempt_of handlers url proxy options1 x)) attempts)"
    unfolding pv try_strategies_clock using att by (simp add: ok_def w2)
  have c4: "case find ok chain of
                Some x \<Rightarrow> (\<exists>d. fst (attempt_of handlers url proxy options1 x) = Returned (Some d)
                               \<and> accepted (Some d)
                               \<and> fst (parse_video md5 handlers rnd w url options) = Inr (PDict d))
              | None \<Rightarrow>
                  fst (parse_video md5 handlers rnd w url options) =
                     Inl (''All strategies failed. Last error: ''
                           @ (case filter (\<lambda>x. error_of handlers url proxy options1 x \<noteq> None) chain of
                                [] \<Rightarrow> ''None''
                              | y # ys \<Rightarrow> the (error_of handlers url proxy options1 (last (y # ys)))))"
  proof (cases "find ok chain")
    case None
    have "last_error_of (error_of handlers url proxy options1) chain None =
        (case filter (\<lambda>x. error_of handlers url proxy options1 x \<noteq> None) chain of
           [] \<Rightarrow> None | y # ys \<Rightarrow> error_of handlers url proxy options1 (last (y # ys)))"
      by (rule last_error_of_last)
    moreover have "\<And>y ys. filter (\<lambda>x. error_of handlers url proxy options1 x \<noteq> None) chain = y # ys
        \<Longrightarrow> error_of handlers url proxy options1 (last (y # ys)) \<noteq> None"
    proof -
      fix y ys assume f: "filter (\<lambda>x. error_of handlers url proxy options1 x \<noteq> None) chain = y # ys"
      have "last (y # ys) \<in> set (filter (\<lambda>x. error_of handlers url proxy options1 x \<noteq> None) chain)"
        unfolding f by (rule last_in_set) simp
      then show "error_of handlers url proxy options1 (last (y # ys)) \<noteq> None" by simp
    qed
    ultimately have "(case last_error_of (error_of handlers url proxy options1) chain None of
                          None \<Rightarrow> ''None'' | Some e \<Rightarrow> e) =
         (case filter (\<lambda>x. error_of handlers url proxy options1 x \<noteq> None) chain of
                                [] \<Rightarrow> ''None''
                              | y # ys \<Rightarrow> the (error_of handlers url proxy options1 (last (y # ys))))"
      by (auto split: list.splits option.splits)
    with None show ?thesis
      unfolding pv try_strategies_result by (simp add: ok_def chain_def)
  next
    case (Some x)
    from find_succeeds_accepted[OF Some[unfolded ok_def]]
    obtain d where d: "fst (attempt_of handlers url proxy options1 x) = Returned (Some d)" "accepted (Some d)"
      by blast
    have "fst (parse_video md5 handlers rnd w url options) = Inr (PDict d)"
      unfolding pv try_strategies_result using Some d by (simp add: ok_def chain_def)
    with Some d show ?thesis by simp
  qed
  show ?thesis
    unfolding Let_def options1_def[symmetric] proxy_def[symmetric] chain_def[symmetric]
      ok_def[symmetric] attempts_def[symmetric]
    using c1 c2 c3 c4 unfolding Let_def by blast
qed

theorem parse_video_strategy_chain_witness:
  "service fresh_world = record_all [] (ParsingService_init True False)
   \<and> length ([] :: recording list) < 2 ^ 51
   \<and> \<not> cache_hit example_md5 fresh_world example_url None
   \<and> fst (parse_video example_md5 handlers_down 0 fresh_world example_url None)
       = Inl ''All strategies failed. Last error: connection refused''
   \<and> tried (snd (parse_video example_md5 handlers_down 0 fresh_world example_url None))
       = [''api_with_signature'', ''playwright'', ''requests'']"
proof -
  have t0: "tried fresh_world = []" by (simp add: fresh_world_def)
  have s0: "service fresh_world = record_all [] (ParsingService_init True False)"
    by (simp add: fresh_world_def)
  have l0: "length ([] :: recording list) < 2 ^ 51" by simp
  have r: "fst (parse_video example_md5 handlers_down 0 fresh_world example_url None)
       = Inl ''All strategies failed. Last error: connection refused''
     \<and> tried (snd (parse_video example_md5 handlers_down 0 fresh_world example_url None))
       = [''api_with_signature'', ''playwright'', ''requests'']"
    using parse_video_strategy_chain[OF s0 l0 fresh_miss, of 0 handlers_down] t0
    by (simp add: Let_def fresh_sorted succeeds_def attempt_of_def error_of_def handlers_down_def
          wait_for_def select_proxy_def get_default_def)
  from s0 l0 fresh_miss r show ?thesis by (intro conjI) simp_all
qed

lemma warm_hit:
  "cache_get example_md5 (cache warm_world) example_url (clock warm_world) =
     (Some (PDict [(''value'', PDict example_record), (''cached_at'', PFloat 1), (''ttl'', PInt 3600)]),
      (cache warm_world)\<lparr>hits := 1\<rparr>)"
  by (simp add: warm_world_eq cache_get_def redis_get_def make_key_def example_md5_def example_url_def)

lemma warm_sorted:
  "sort_strategies_by_weight (service warm_world) =
     [\<lparr>name = ''api_with_signature'', priority = 1, timeout = 10, enabled = True, score = 1\<rparr>,
      \<lparr>name = ''playwright'', priority = 2, timeout = 30, enabled = True,
       score = 3602879701896397 / 4503599627370496\<rparr>,
      \<lparr>name = ''requests'', priority = 4, timeout = 15, enabled = True,
       score = 3602879701896397 / 9007199254740992\<rparr>]"
  by (simp add: warm_world_eq sort_strategies_by_weight_def with_score_def dynamic_weight_def
        record_success_def
        ParsingService_init_def initialize_strategies_def initialize_weights_def dict_get_def
        strategy.extend_def Let_def double_1 double_half double_four_fifths double_two_fifths
        fdiv_1_1 fmul_1_half fadd_half_half fmul_1_1)

text \<open>
  The claim as stated fails in two ways. On a cache hit: after one successful call has
  stored its result, a second call for the same URL with handlers that all raise returns
  the cached value, tries no strategy, and raises nothing. And an attempt is not bounded
  by the time limit: a handler of \<open>playwright\<close>, limit 30, that is still running then and
  needs five seconds to end after its cancellation makes an attempt of 35 seconds, and a
  call whose three handlers all behave so, with limits 10, 30 and 15, takes 70 seconds.
\<close>

theorem parse_video_cache_hit_counterexample:
  "fst (parse_video example_md5 handlers_down 0 warm_world example_url None)
     = Inr (PDict [(''value'', PDict example_record), (''cached_at'', PFloat 1), (''ttl'', PInt 3600)])
   \<and> tried (snd (parse_video example_md5 handlers_down 0 warm_world example_url None)) = tried warm_world
   \<and> find (succeeds handlers_down example_url None [])
        (filter enabled (sort_strategies_by_weight (service warm_world))) = None
   \<and> wait_for (handlers_hang ''playwright'' example_url (strategy_options None [])) 30
       = (RaisedTimeout, 35)
   \<and> tried (snd (parse_video example_md5 handlers_hang 0 fresh_world example_url None))
       = [''api_with_signature'', ''playwright'', ''requests'']
   \<and> clock (snd (parse_video example_md5 handlers_hang 0 fresh_world example_url None))
       = clock fresh_world + 70"
proof -
  have hit: "cache_hit example_md5 warm_world example_url None"
    by (simp add: cache_hit_def warm_hit get_default_def)
  have slow: "wait_for (handlers_hang ''playwright'' example_url (strategy_options None [])) 30
       = (RaisedTimeout, 35)"
    by (simp add: wait_for_def handlers_hang_def)
  have w0: "tried fresh_world = []" "clock fresh_world = 0"
    by (simp_all add: fresh_world_def)
  have p0: "parse_video example_md5 handlers_hang 0 fresh_world example_url None
      = try_strategies example_md5 handlers_hang example_url None [] 0
          (sort_strategies_by_weight (service fresh_world)) None
          (fresh_world\<lparr>cache := snd (cache_get example_md5 (cache fresh_world) example_url 0)\<rparr>)"
    unfolding parse_video_miss[OF fresh_miss] Let_def
    by (simp add: select_proxy_def get_default_def w0)
  have hang: "tried (snd (parse_video example_md5 handlers_hang 0 fresh_world example_url None))
       = [''api_with_signature'', ''playwright'', ''requests'']"
    "clock (snd (parse_video example_md5 handlers_hang 0 fresh_world example_url None))
       = clock fresh_world + 70"
    unfolding p0 try_strategies_tried try_strategies_clock
    by (simp_all add: fresh_sorted w0 succeeds_def attempt_of_def handlers_hang_def wait_for_def)
  have cached: "fst (parse_video example_md5 handlers_down 0 warm_world example_url None)
     = Inr (PDict [(''value'', PDict example_record), (''cached_at'', PFloat 1), (''ttl'', PInt 3600)])
   \<and> tried (snd (parse_video example_md5 handlers_down 0 warm_world example_url None)) = tried warm_world
   \<and> find (succeeds handlers_down example_url None [])
        (filter enabled (sort_strategies_by_weight (service warm_world))) = None"
    unfolding parse_video_hit[OF hit]
    by (simp add: warm_hit warm_sorted succeeds_def attempt_of_def handlers_down_def wait_for_def)
  from cached slow hang show ?thesis by blast
qed

text \<open>
  Claim C3, on the code. \<open>CacheManager.set\<close> succeeds and stores the record wrapped with
  \<open>cached_at\<close> and \<open>ttl\<close>; a \<open>get\<close> one second later returns the wrapper, which is not
  the record that was stored.
\<close>

theorem cache_get_returns_wrapper:
  "fst (cache_get example_md5
          (snd (cache_set example_md5 (CacheManager_init \<lparr>store = Map.empty, up = True\<rparr>)
                  example_url (PDict example_record) (Some 3600) 0))
          example_url 1)
     = Some (PDict [(''value'', PDict example_record), (''cached_at'', PFloat 0), (''ttl'', PInt 3600)])
   \<and> fst (cache_set example_md5 (CacheManager_init \<lparr>store = Map.empty, up = True\<rparr>)
                  example_url (PDict example_record) (Some 3600) 0) = True
   \<and> PDict [(''value'', PDict example_record), (''cached_at'', PFloat 0), (''ttl'', PInt 3600)]
       \<noteq> PDict example_record"
  by (simp add: cache_get_def cache_set_def redis_get_def redis_setex_def make_key_def
        CacheManager_init_def example_md5_def example_url_def example_record_def Let_def)

subsection \<open>Accepted results and normalized records\<close>


lemma contains_setitem: "contains (setitem k v d) k' \<longleftrightarrow> k' = k \<or> contains d k'"
  by (simp add: contains_def setitem_def update_conv')

lemma contains_dict_update: "contains d k \<Longrightarrow> contains (dict_update d e) k"
proof -
  have "\<And>d. contains d k \<Longrightarrow> contains (foldl (\<lambda>acc (k, v). setitem k v acc) d e) k"
  proof (induction e)
    case Nil
    then show ?case by simp
  next
    case (Cons kv e)
    obtain k' v' where kv: "kv = (k', v')" by (cases kv)
    have "contains (setitem k' v' d) k" using Cons.prems by (simp add: contains_setitem)
    from Cons.IH[OF this] show ?case by (simp add: kv)
  qed
  then show "contains d k \<Longrightarrow> contains (dict_update d e) k" by (simp add: dict_update_def)
qed

lemma normalize_video_info_shape:
  assumes "normalize_video_info py_str raw_data = Inr r"
  shows "\<exists>info. r = dict_update
            [(''video_id'', PStr []), (''title'', PStr []), (''author'', PStr []),
             (''author_id'', PStr []), (''video_url'', PStr []), (''cover_url'', PStr []),
             (''music_url'', PStr []), (''duration'', PInt 0), (''create_time'', PInt 0),
             (''statistics'', PDict [(''likes'', PInt 0), (''comments'', PInt 0),
                                     (''shares'', PInt 0), (''views'', PInt 0)]),
             (''is_image'', PBool False), (''images'', PList []),
             (''raw_data'', PDict raw_data)] info"
proof -
  have e: "\<And>d. dict_update d [] = d" by (simp add: dict_update_def)
  show ?thesis
    using assms unfolding normalize_video_info_def Let_def bind_def
    by (auto split: if_splits sum.splits intro: e[symmetric])
qed

lemma normalize_video_info_keys:
  assumes "normalize_video_info py_str raw_data = Inr r"
  shows "contains r ''video_id'' \<and> contains r ''title'' \<and> contains r ''author''"
proof -
  from normalize_video_info_shape[OF assms] obtain info where
    r: "r = dict_update
            [(''video_id'', PStr []), (''title'', PStr []), (''author'', PStr []),
             (''author_id'', PStr []), (''video_url'', PStr []), (''cover_url'', PStr []),
             (''music_url'', PStr []), (''duration'', PInt 0), (''create_time'', PInt 0),
             (''statistics'', PDict [(''likes'', PInt 0), (''comments'', PInt 0),
                                     (''shares'', PInt 0), (''views'', PInt 0)]),
             (''is_image'', PBool False), (''images'', PList []),
             (''raw_data'', PDict raw_data)] info" by blast
  show ?thesis unfolding r
    by (intro conjI contains_dict_update) (simp_all add: contains_def)
qed

lemma accepted_iff:
  "accepted result \<longleftrightarrow>
      (\<exists>d. result = Some d \<and> d \<noteq> []
          \<and> contains d ''video_id'' \<and> contains d ''title'' \<and> contains d ''author''
          \<and> (contains d ''video_url'' \<longrightarrow>
                truthy (getitem d ''video_url'') \<and> getitem d ''video_url'' \<noteq> PStr ''None''))"
  by (cases result) (auto simp: accepted_def validate_result_def)

lemma try_strategies_step:
  assumes "enabled x" "fst (attempt_of handlers url proxy options x) = Returned result"
  shows "let out = try_strategies md5 handlers url proxy options t0 (x # xs) last_error w;
             w2 = w\<lparr>tried := tried w @ [name x],
                    clock := clock w + snd (attempt_of handlers url proxy options x)\<rparr>
         in if accepted result
            then fst out = Inr (PDict (the result))
               \<and> service (snd out) = record_success (name x) (service w)
               \<and> cache (snd out) = snd (cache_set md5 (cache w) url (PDict (the result)) (Some 3600) (clock w2))
            else out = try_strategies md5 handlers url proxy options t0 xs last_error w2"
  using assms
  by (cases "wait_for (handlers (name x) url (strategy_options proxy options)) (timeout x)")
     (simp add: attempt_of_def Let_def case_prod_beta)

text \<open>
  Claim C6. The test that \<open>parse_video\<close> applies to a strategy's result holds exactly when
  the result is a non-empty dictionary with the keys \<open>video_id\<close>, \<open>title\<close> and \<open>author\<close>
  whose \<open>video_url\<close>, if present, is truthy (not empty) and not the string \<open>None\<close>. When an
  enabled strategy returns a result, the loop returns it, records a success for the
  strategy and stores it in the cache if the test holds, and otherwise goes on to the
  remaining strategies having recorded nothing. Whenever \<open>normalize_video_info\<close> returns a
  record, the record has the keys \<open>video_id\<close>, \<open>title\<close> and \<open>author\<close>.
\<close>

theorem validated_result_accepted:
  "(accepted result \<longleftrightarrow>
      (\<exists>d. result = Some d \<and> d \<noteq> []
          \<and> contains d ''video_id'' \<and> contains d ''title'' \<and> contains d ''author''
          \<and> (contains d ''video_url'' \<longrightarrow>
                truthy (getitem d ''video_url'') \<and> getitem d ''video_url'' \<noteq> PStr ''None'')))
   \<and> (enabled x \<and> fst (attempt_of handlers url proxy options x) = Returned result \<longrightarrow>
        (let out = try_strategies md5 handlers url proxy options t0 (x # xs) last_error w;
             w2 = w\<lparr>tried := tried w @ [name x],
                    clock := clock w + snd (attempt_of handlers url proxy options x)\<rparr>
         in if accepted result
            then fst out = Inr (PDict (the result))
               \<and> service (snd out) = record_success (name x) (service w)
               \<and> cache (snd out)
                   = snd (cache_set md5 (cache w) url (PDict (the result)) (Some 3600) (clock w2))
            else out = try_strategies md5 handlers url proxy options t0 xs last_error w2))
   \<and> (normalize_video_info py_str raw_data = Inr r \<longrightarrow>
         contains r ''video_id'' \<and> contains r ''title'' \<and> contains r ''author'')"
  using accepted_iff[of result] try_strategies_step[of x handlers url proxy options result]
    normalize_video_info_keys[of py_str raw_data r]
  by blast

theorem validated_result_accepted_witness:
  "accepted (Some example_record)
   \<and> fst (attempt_of handlers_ok example_url None []
            \<lparr>name = ''requests'', priority = 4, timeout = 15, enabled = True, score = 4 / 10\<rparr>)
       = Returned (Some example_record)
   \<and> fst (try_strategies example_md5 handlers_ok example_url None [] 0
            [\<lparr>name = ''requests'', priority = 4, timeout = 15, enabled = True, score = 4 / 10\<rparr>]
            None fresh_world) = Inr (PDict example_record)
   \<and> (case normalize_video_info example_str example_raw_data of
         Inl e \<Rightarrow> False
       | Inr r \<Rightarrow> contains r ''video_id'' \<and> contains r ''title'' \<and> contains r ''author''
                 \<and> getitem r ''video_url'' = PStr ''https://example.com/play/1'')"
proof -
  have a: "accepted (Some example_record)"
    by (simp add: accepted_def validate_result_def example_record_def contains_def getitem_def)
  have b: "fst (attempt_of handlers_ok example_url None []
            \<lparr>name = ''requests'', priority = 4, timeout = 15, enabled = True, score = 4 / 10\<rparr>)
       = Returned (Some example_record)"
    by (simp add: attempt_of_def handlers_ok_def wait_for_def)
  have n: "normalize_video_info example_str example_raw_data =
    Inr [(''video_id'', PStr ''7549035040701844779''),
      (''title'', PStr ''demo''), (''author'', PStr ''someone''),
      (''author_id'', PStr []),
      (''video_url'', PStr ''https://example.com/play/1''),
      (''cover_url'', PStr []), (''music_url'', PStr []),
      (''duration'', PInt 0), (''create_time'', PInt 0),
      (''statistics'',
       PDict
        [(''likes'', PInt 0), (''comments'', PInt 0), (''shares'', PInt 0),
         (''views'', PInt 0)]),
      (''is_image'', PBool False), (''images'', PList []),
      (''raw_data'', PDict example_raw_data)]"
    by (simp add: normalize_video_info_def example_raw_data_def extract_from_aweme_detail_def
          extract_video_def extract_music_def first_url_def py_get_def get_default_def index0_def
          bind_def contains_def getitem_def dict_update_def setitem_def example_str_def Let_def)
  show ?thesis
    using validated_result_accepted[of "Some example_record"
        "\<lparr>name = ''requests'', priority = 4, timeout = 15, enabled = True, score = 4 / 10\<rparr>"
        handlers_ok example_url None "[]" example_md5 0 "[]" None fresh_world
        example_str example_raw_data] a b n
    by (simp add: Let_def contains_def getitem_def)
qed

subsection \<open>The batch endpoint\<close>










subsection \<open>Searches, video ids and short links\<close>

lemma run_unique:
  assumes "ds @ rest = ds' @ rest'"
    and "\<forall>c \<in> set ds. is_digit c" "rest = [] \<or> \<not> is_digit (hd rest)"
    and "\<forall>c \<in> set ds'. is_digit c" "rest' = [] \<or> \<not> is_digit (hd rest')"
  shows "ds = ds'"
proof -
  have a: "takeWhile is_digit (ds @ rest) = ds"
    using assms(2,3) by (cases rest) (simp_all add: takeWhile_append2)
  have b: "takeWhile is_digit (ds' @ rest') = ds'"
    using assms(4,5) by (cases rest') (simp_all add: takeWhile_append2)
  from a b assms(1) show ?thesis by simp
qed

lemma occurs_takeWhile:
  "occurs (lit, lo, hi) pre ds s \<longleftrightarrow>
     take (length pre + length lit) s = pre @ lit
     \<and> ds = takeWhile is_digit (drop (length pre + length lit) s) \<and> lo \<le> length ds"
proof
  assume "occurs (lit, lo, hi) pre ds s"
  then obtain rest where r: "s = pre @ lit @ ds @ rest" "\<forall>c \<in> set ds. is_digit c"
      "rest = [] \<or> \<not> is_digit (hd rest)" "lo \<le> length ds"
    by (auto simp: occurs_def)
  have "takeWhile is_digit (ds @ rest) = ds"
    using r(2,3) by (cases rest) (simp_all add: takeWhile_append2)
  with r show "take (length pre + length lit) s = pre @ lit
     \<and> ds = takeWhile is_digit (drop (length pre + length lit) s) \<and> lo \<le> length ds"
    by simp
next
  assume a: "take (length pre + length lit) s = pre @ lit
     \<and> ds = takeWhile is_digit (drop (length pre + length lit) s) \<and> lo \<le> length ds"
  define t where "t = drop (length pre + length lit) s"
  have s: "s = pre @ lit @ t"
    using a append_take_drop_id[of "length pre + length lit" s] by (simp add: t_def)
  have t: "t = ds @ dropWhile is_digit t" using a by (simp add: t_def)
  have d: "\<forall>c \<in> set ds. is_digit c" using a by (auto dest: set_takeWhileD)
  have e: "dropWhile is_digit t = [] \<or> \<not> is_digit (hd (dropWhile is_digit t))"
    using hd_dropWhile[of is_digit t] by blast
  show "occurs (lit, lo, hi) pre ds s"
    unfolding occurs_def using s t d e a
    by (auto intro!: exI[of _ "dropWhile is_digit t"])
qed

lemma match_at_occurs:
  "match_at (lit, lo, hi) s = Some g \<longleftrightarrow>
     (\<exists>ds. occurs (lit, lo, hi) [] ds s \<and> g = (case hi of None \<Rightarrow> ds | Some h \<Rightarrow> take h ds))"
  by (auto simp: match_at_def occurs_takeWhile Let_def)

lemma match_at_None:
  "match_at (lit, lo, hi) s = None \<longleftrightarrow> (\<forall>ds. \<not> occurs (lit, lo, hi) [] ds s)"
  by (auto simp: match_at_def occurs_takeWhile Let_def)

lemma occurs_Cons:
  "occurs (lit, lo, hi) (c # pre) ds (c' # s) \<longleftrightarrow> c = c' \<and> occurs (lit, lo, hi) pre ds s"
  by (auto simp: occurs_def)

lemma occurs_Nil_string: "occurs (lit, lo, hi) pre ds [] \<Longrightarrow> pre = []"
  by (auto simp: occurs_def)

lemma re_search_captures:
  "re_search (lit, lo, hi) s = Some g \<longleftrightarrow> captures (lit, lo, hi) s g"
proof (induction s)
  case Nil
  show ?case
    by (auto simp: captures_def match_at_occurs dest: occurs_Nil_string)
next
  case (Cons c cs)
  show ?case
  proof (cases "match_at (lit, lo, hi) (c # cs)")
    case (Some g')
    then obtain ds where ds: "occurs (lit, lo, hi) [] ds (c # cs)"
        "g' = (case hi of None \<Rightarrow> ds | Some h \<Rightarrow> take h ds)"
      by (auto simp: match_at_occurs)
    have uniq: "\<And>ds'. occurs (lit, lo, hi) [] ds' (c # cs) \<Longrightarrow> ds' = ds"
      using ds(1) by (simp add: occurs_takeWhile)
    have "captures (lit, lo, hi) (c # cs) g \<longleftrightarrow> g = g'"
    proof
      assume "captures (lit, lo, hi) (c # cs) g"
      then obtain pre ds' where p: "occurs (lit, lo, hi) pre ds' (c # cs)"
          "\<forall>pre' ds''. occurs (lit, lo, hi) pre' ds'' (c # cs) \<longrightarrow> length pre \<le> length pre'"
          "g = (case hi of None \<Rightarrow> ds' | Some h \<Rightarrow> take h ds')"
        by (auto simp: captures_def)
      from p(2) ds(1) have "pre = []" by fastforce
      with p(1) uniq have "ds' = ds" by simp
      with p(3) ds(2) show "g = g'" by (cases hi) simp_all
    next
      assume "g = g'"
      with ds show "captures (lit, lo, hi) (c # cs) g"
        unfolding captures_def by (intro exI[of _ "[]"] exI[of _ ds]) simp
    qed
    with Some show ?thesis by auto
  next
    case None
    then have no: "\<And>ds. \<not> occurs (lit, lo, hi) [] ds (c # cs)"
      by (simp add: match_at_None)
    have shift: "\<And>pre ds. occurs (lit, lo, hi) pre ds (c # cs) \<longleftrightarrow>
        (\<exists>pre'. pre = c # pre' \<and> occurs (lit, lo, hi) pre' ds cs)"
    proof -
      fix pre ds
      show "occurs (lit, lo, hi) pre ds (c # cs) \<longleftrightarrow>
        (\<exists>pre'. pre = c # pre' \<and> occurs (lit, lo, hi) pre' ds cs)"
        using no[of ds] by (cases pre) (auto simp: occurs_Cons)
    qed
    have "captures (lit, lo, hi) (c # cs) g \<longleftrightarrow> captures (lit, lo, hi) cs g"
    proof
      assume "captures (lit, lo, hi) (c # cs) g"
      then obtain pre ds where p: "occurs (lit, lo, hi) pre ds (c # cs)"
          "\<forall>pre' ds'. occurs (lit, lo, hi) pre' ds' (c # cs) \<longrightarrow> length pre \<le> length pre'"
          "g = (case hi of None \<Rightarrow> ds | Some h \<Rightarrow> take h ds)"
        by (auto simp: captures_def)
      from p(1) obtain pre0 where pre0: "pre = c # pre0" "occurs (lit, lo, hi) pre0 ds cs"
        using shift by blast
      have "\<forall>pre' ds'. occurs (lit, lo, hi) pre' ds' cs \<longrightarrow> length pre0 \<le> length pre'"
      proof (intro allI impI)
        fix pre' ds' assume "occurs (lit, lo, hi) pre' ds' cs"
        then have "occurs (lit, lo, hi) (c # pre') ds' (c # cs)" using shift by blast
        with p(2) pre0(1) show "length pre0 \<le> length pre'" by fastforce
      qed
      with pre0(2) p(3) show "captures (lit, lo, hi) cs g"
        unfolding captures_def by auto
    next
      assume "captures (lit, lo, hi) cs g"
      then obtain pre ds where p: "occurs (lit, lo, hi) pre ds cs"
          "\<forall>pre' ds'. occurs (lit, lo, hi) pre' ds' cs \<longrightarrow> length pre \<le> length pre'"
          "g = (case hi of None \<Rightarrow> ds | Some h \<Rightarrow> take h ds)"
        by (auto simp: captures_def)
      have 1: "occurs (lit, lo, hi) (c # pre) ds (c # cs)" using p(1) shift by blast
      have 2: "\<forall>pre' ds'. occurs (lit, lo, hi) pre' ds' (c # cs) \<longrightarrow> length (c # pre) \<le> length pre'"
      proof (intro allI impI)
        fix pre' ds' assume "occurs (lit, lo, hi) pre' ds' (c # cs)"
        then obtain q where "pre' = c # q" "occurs (lit, lo, hi) q ds' cs" using shift by blast
        with p(2) show "length (c # pre) \<le> length pre'" by fastforce
      qed
      from 1 2 p(3) show "captures (lit, lo, hi) (c # cs) g"
        unfolding captures_def by (intro exI[of _ "c # pre"] exI[of _ ds]) simp
    qed
    with None Cons.IH show ?thesis by simp
  qed
qed

lemma re_search_captures_iff: "re_search p s = Some g \<longleftrightarrow> captures p s g"
  using re_search_captures[of "fst p" "fst (snd p)" "snd (snd p)" s g] by simp

lemma matches_captures: "matches p s \<longleftrightarrow> (\<exists>g. captures p s g)"
proof
  assume "matches p s"
  then have ex: "\<exists>n. \<exists>pre ds. occurs p pre ds s \<and> length pre = n"
    by (auto simp: matches_def)
  define n where "n = (LEAST n. \<exists>pre ds. occurs p pre ds s \<and> length pre = n)"
  from LeastI_ex[OF ex] obtain pre ds where p: "occurs p pre ds s" "length pre = n"
    unfolding n_def by blast
  have "\<forall>pre' ds'. occurs p pre' ds' s \<longrightarrow> length pre \<le> length pre'"
  proof (intro allI impI)
    fix pre' ds' assume "occurs p pre' ds' s"
    then have "\<exists>pre ds. occurs p pre ds s \<and> length pre = length pre'" by blast
    then have "n \<le> length pre'" unfolding n_def by (rule Least_le)
    with p(2) show "length pre \<le> length pre'" by simp
  qed
  with p(1) show "\<exists>g. captures p s g" unfolding captures_def by blast
next
  assume "\<exists>g. captures p s g"
  then show "matches p s" by (auto simp: captures_def matches_def)
qed

lemma re_search_None: "re_search p s = None \<longleftrightarrow> \<not> matches p s"
  using re_search_captures_iff[of p s] matches_captures[of p s]
  by (cases "re_search p s") auto

lemma first_match_None: "first_match ps url = None \<longleftrightarrow> (\<forall>p \<in> set ps. \<not> matches p url)"
  by (induction ps) (auto simp: re_search_None[symmetric] split: option.splits)

lemma first_match_Some:
  "first_match ps url = Some g \<longleftrightarrow>
     (\<exists>i < length ps. captures (ps ! i) url g \<and> (\<forall>j < i. \<not> matches (ps ! j) url))"
proof (induction ps)
  case Nil
  show ?case by simp
next
  case (Cons p ps)
  show ?case
  proof (cases "re_search p url")
    case None
    then have nm: "\<not> matches p url" by (simp add: re_search_None)
    then have nc: "\<And>g. \<not> captures p url g" using matches_captures by blast
    have "(\<exists>i < length (p # ps). captures ((p # ps) ! i) url g \<and> (\<forall>j < i. \<not> matches ((p # ps) ! j) url))
        \<longleftrightarrow> (\<exists>i < length ps. captures (ps ! i) url g \<and> (\<forall>j < i. \<not> matches (ps ! j) url))"
    proof
      assume "\<exists>i < length (p # ps). captures ((p # ps) ! i) url g \<and> (\<forall>j < i. \<not> matches ((p # ps) ! j) url)"
      then obtain i where i: "i < length (p # ps)" "captures ((p # ps) ! i) url g"
          "\<forall>j < i. \<not> matches ((p # ps) ! j) url" by blast
      from i(2) nc obtain k where k: "i = Suc k" by (cases i) auto
      have "\<forall>j < k. \<not> matches (ps ! j) url"
      proof (intro allI impI)
        fix j assume "j < k"
        then have "Suc j < i" using k by simp
        with i(3) have "\<not> matches ((p # ps) ! Suc j) url" by blast
        then show "\<not> matches (ps ! j) url" by simp
      qed
      with i(1,2) k show "\<exists>i < length ps. captures (ps ! i) url g \<and> (\<forall>j < i. \<not> matches (ps ! j) url)"
        by auto
    next
      assume "\<exists>i < length ps. captures (ps ! i) url g \<and> (\<forall>j < i. \<not> matches (ps ! j) url)"
      then obtain i where i: "i < length ps" "captures (ps ! i) url g"
          "\<forall>j < i. \<not> matches (ps ! j) url" by blast
      have "\<forall>j < Suc i. \<not> matches ((p # ps) ! j) url"
      proof (intro allI impI)
        fix j assume j: "j < Suc i"
        show "\<not> matches ((p # ps) ! j) url"
          using nm i(3) j by (cases j) auto
      qed
      with i(1,2) show "\<exists>i < length (p # ps). captures ((p # ps) ! i) url g \<and> (\<forall>j < i. \<not> matches ((p # ps) ! j) url)"
        by (intro exI[of _ "Suc i"]) simp
    qed
    with None Cons.IH show ?thesis by simp
  next
    case (Some g')
    then have c: "captures p url g'" by (simp add: re_search_captures_iff)
    then have m: "matches p url" using matches_captures by blast
    have "(\<exists>i < length (p # ps). captures ((p # ps) ! i) url g \<and> (\<forall>j < i. \<not> matches ((p # ps) ! j) url))
        \<longleftrightarrow> g = g'"
    proof
      assume "\<exists>i < length (p # ps). captures ((p # ps) ! i) url g \<and> (\<forall>j < i. \<not> matches ((p # ps) ! j) url)"
      then obtain i where i: "i < length (p # ps)" "captures ((p # ps) ! i) url g"
          "\<forall>j < i. \<not> matches ((p # ps) ! j) url" by blast
      have "i = 0"
      proof (rule ccontr)
        assume "i \<noteq> 0"
        then have "0 < i" by simp
        with i(3) have "\<not> matches ((p # ps) ! 0) url" by blast
        with m show False by simp
      qed
      with i(2) have "captures p url g" by simp
      then have "re_search p url = Some g" by (simp add: re_search_captures_iff)
      with Some show "g = g'" by simp
    next
      assume "g = g'"
      with c show "\<exists>i < length (p # ps). captures ((p # ps) ! i) url g \<and> (\<forall>j < i. \<not> matches ((p # ps) ! j) url)"
        by (intro exI[of _ 0]) simp
    qed
    with Some show ?thesis by auto
  qed
qed

lemma captures_digits:
  assumes "captures p s g"
  shows "(\<forall>c \<in> set g. is_digit c) \<and> (\<exists>pre rest. s = pre @ fst p @ g @ rest)"
proof -
  obtain lit lo hi where p: "p = (lit, lo, hi)" by (cases p)
  from assms obtain pre ds where o: "occurs p pre ds s"
      and g: "g = (case hi of None \<Rightarrow> ds | Some h \<Rightarrow> take h ds)"
    by (auto simp: captures_def p)
  from o obtain rest where r: "s = pre @ lit @ ds @ rest" "\<forall>c \<in> set ds. is_digit c"
    by (auto simp: occurs_def p)
  have d: "\<forall>c \<in> set g. is_digit c" using r(2) g by (cases hi) (auto dest: in_set_takeD)
  have "\<exists>rest'. ds @ rest = g @ rest'"
  proof (cases hi)
    case None
    with g show ?thesis by simp
  next
    case (Some h)
    with g have "ds @ rest = g @ (drop h ds @ rest)" by simp
    then show ?thesis by blast
  qed
  then obtain rest' where "ds @ rest = g @ rest'" by blast
  with r(1) have "s = pre @ fst p @ g @ rest'" by (simp add: p)
  with d show ?thesis by blast
qed

text \<open>
  Claim C5. \<open>extract_video_id\<close> returns the digits captured by the first pattern of the
  list \<open>/video/(\d+)\<close>, \<open>/note/(\d+)\<close>, \<open>modal_id=(\d+)\<close>, \<open>aweme_id=(\d+)\<close>, \<open>/(\d{15,20})\<close>
  that matches the URL: digits that stand in the URL right after the literal of that
  pattern, at its leftmost occurrence. It returns \<open>None\<close> exactly when no pattern matches,
  and so for a URL containing \<open>v.douyin.com\<close> that no pattern matches, such as the short
  link \<open>https://v.douyin.com/gNv_ZvhuEr0/\<close>.
\<close>

theorem extract_video_id_first_pattern:
  "patterns = [(''/video/'', 1, None), (''/note/'', 1, None), (''modal_id='', 1, None),
               (''aweme_id='', 1, None), (''/'', 15, Some 20)]
   \<and> (extract_video_id url = Some g \<longleftrightarrow>
         (\<exists>i < length patterns. captures (patterns ! i) url g
              \<and> (\<forall>j < i. \<not> matches (patterns ! j) url)))
   \<and> (extract_video_id url = Some g \<longrightarrow>
         g \<noteq> [] \<and> (\<forall>c \<in> set g. is_digit c)
         \<and> (\<exists>p \<in> set patterns. \<exists>pre rest. url = pre @ fst p @ g @ rest))
   \<and> (extract_video_id url = None \<longleftrightarrow> (\<forall>p \<in> set patterns. \<not> matches p url))
   \<and> (substring ''v.douyin.com'' url \<and> (\<forall>p \<in> set patterns. \<not> matches p url)
         \<longrightarrow> extract_video_id url = None)
   \<and> extract_video_id ''https://v.douyin.com/gNv_ZvhuEr0/'' = None"
proof -
  have e: "extract_video_id url = first_match patterns url"
    by (simp add: extract_video_id_def split: option.splits)
  have c1: "extract_video_id url = Some g \<longleftrightarrow>
         (\<exists>i < length patterns. captures (patterns ! i) url g
              \<and> (\<forall>j < i. \<not> matches (patterns ! j) url))"
    unfolding e by (rule first_match_Some)
  have c3: "extract_video_id url = None \<longleftrightarrow> (\<forall>p \<in> set patterns. \<not> matches p url)"
    unfolding e by (rule first_match_None)
  have c2: "extract_video_id url = Some g \<longrightarrow>
         g \<noteq> [] \<and> (\<forall>c \<in> set g. is_digit c)
         \<and> (\<exists>p \<in> set patterns. \<exists>pre rest. url = pre @ fst p @ g @ rest)"
  proof
    assume "extract_video_id url = Some g"
    with c1 obtain i where i: "i < length patterns" "captures (patterns ! i) url g" by blast
    from captures_digits[OF i(2)] have d: "\<forall>c \<in> set g. is_digit c"
        "\<exists>pre rest. url = pre @ fst (patterns ! i) @ g @ rest" by blast+
    have mem: "patterns ! i \<in> set patterns" using i(1) by simp
    obtain lit lo hi where p: "patterns ! i = (lit, lo, hi)" by (cases "patterns ! i")
    from mem p have lohi: "1 \<le> lo \<and> (case hi of None \<Rightarrow> True | Some h \<Rightarrow> 1 \<le> h)"
      by (auto simp: patterns_def)
    from i(2) obtain pre ds where o: "occurs (lit, lo, hi) pre ds url"
        and g: "g = (case hi of None \<Rightarrow> ds | Some h \<Rightarrow> take h ds)"
      by (auto simp: captures_def p)
    from o have "lo \<le> length ds" by (auto simp: occurs_def)
    with lohi g have "g \<noteq> []" by (cases hi) auto
    with d mem show "g \<noteq> [] \<and> (\<forall>c \<in> set g. is_digit c)
         \<and> (\<exists>p \<in> set patterns. \<exists>pre rest. url = pre @ fst p @ g @ rest)" by blast
  qed
  have c5: "extract_video_id ''https://v.douyin.com/gNv_ZvhuEr0/'' = None"
    by (simp add: extract_video_id_def patterns_def match_at_def is_digit_def)
  from c1 c2 c3 c5 show ?thesis by (simp add: patterns_def)
qed

theorem extract_video_id_first_pattern_witness:
  "extract_video_id ''https://www.douyin.com/video/7549035040701844779'' = Some ''7549035040701844779''
   \<and> captures (patterns ! 0) ''https://www.douyin.com/video/7549035040701844779'' ''7549035040701844779''
   \<and> extract_video_id ''https://www.douyin.com/user/x?modal_id=123'' = Some ''123''
   \<and> extract_video_id ''https://www.iesdouyin.com/share/1234567890123456789012345/'' = Some ''12345678901234567890''
   \<and> substring ''v.douyin.com'' ''https://v.douyin.com/gNv_ZvhuEr0/''
   \<and> \<not> matches (''/video/'', 1, None) ''https://v.douyin.com/gNv_ZvhuEr0/''
   \<and> \<not> matches (''/'', 15, Some 20) ''https://v.douyin.com/gNv_ZvhuEr0/''
   \<and> extract_video_id ''https://v.douyin.com/gNv_ZvhuEr0/'' = None"
proof -
  have a: "extract_video_id ''https://www.douyin.com/video/7549035040701844779'' = Some ''7549035040701844779''"
    by (simp add: extract_video_id_def patterns_def match_at_def is_digit_def)
  have b: "extract_video_id ''https://www.douyin.com/user/x?modal_id=123'' = Some ''123''"
    by (simp add: extract_video_id_def patterns_def match_at_def is_digit_def)
  have c: "extract_video_id ''https://www.iesdouyin.com/share/1234567890123456789012345/'' = Some ''12345678901234567890''"
    by (simp add: extract_video_id_def patterns_def match_at_def is_digit_def)
  have d: "substring ''v.douyin.com'' ''https://v.douyin.com/gNv_ZvhuEr0/''" by simp
  have p0: "patterns ! 0 = (''/video/'', 1, None)" by (simp add: patterns_def)
  have r: "re_search (''/video/'', 1, None) ''https://www.douyin.com/video/7549035040701844779'' = Some ''7549035040701844779''"
    by (simp add: match_at_def is_digit_def)
  note short = extract_video_id_first_pattern[of "''https://v.douyin.com/gNv_ZvhuEr0/''" "[]"]
  have n: "\<forall>p \<in> set patterns. \<not> matches p ''https://v.douyin.com/gNv_ZvhuEr0/''"
    using short[THEN conjunct2, THEN conjunct2, THEN conjunct2, THEN conjunct1]
      short[THEN conjunct2, THEN conjunct2, THEN conjunct2, THEN conjunct2, THEN conjunct2]
    by simp
  note long = extract_video_id_first_pattern[of "''https://www.douyin.com/video/7549035040701844779''"
      "''7549035040701844779''"]
  from long[THEN conjunct2, THEN conjunct1] a
  obtain i where i: "i < length patterns"
      "captures (patterns ! i) ''https://www.douyin.com/video/7549035040701844779'' ''7549035040701844779''"
      "\<forall>j < i. \<not> matches (patterns ! j) ''https://www.douyin.com/video/7549035040701844779''"
    by auto
  have m0: "matches (patterns ! 0) ''https://www.douyin.com/video/7549035040701844779''"
    using r re_search_None[of "patterns ! 0" "''https://www.douyin.com/video/7549035040701844779''"]
    unfolding p0 by simp
  have "i = 0" using i(3) m0 by (cases i) auto
  with i(2) have i0: "captures (patterns ! 0) ''https://www.douyin.com/video/7549035040701844779''
      ''7549035040701844779''" by simp
  have n1: "\<not> matches (''/video/'', 1, None) ''https://v.douyin.com/gNv_ZvhuEr0/''"
    and n5: "\<not> matches (''/'', 15, Some 20) ''https://v.douyin.com/gNv_ZvhuEr0/''"
    using n by (simp_all add: patterns_def)
  from i0 a b c d n1 n5
    short[THEN conjunct2, THEN conjunct2, THEN conjunct2, THEN conjunct2, THEN conjunct2]
  show ?thesis by simp
qed

lemma share_video_matches:
  assumes "matches (''/share/video/'', lo, hi) s"
  shows "matches (''/video/'', lo, hi) s"
proof -
  from assms obtain pre ds where "occurs (''/share/video/'', lo, hi) pre ds s"
    by (auto simp: matches_def)
  then have "occurs (''/video/'', lo, hi) (pre @ ''/share'') ds s"
    by (auto simp: occurs_def)
  then show ?thesis unfolding matches_def by blast
qed

text \<open>
  Claim C4. \<open>_resolve_short_url\<close> issues exactly one request, for the given URL and with
  redirects not followed. If the request raises, or the response has no \<open>Location\<close> header,
  the URL is returned unchanged. If \<open>Location\<close> contains \<open>/video/\<close> or \<open>/share/video/\<close>
  followed by digits, the result is \<open>https://www.douyin.com/video/\<close> followed by the digits
  after the leftmost such \<open>/video/\<close>; otherwise the result is the value of \<open>Location\<close>.
\<close>

theorem resolve_short_url_cases:
  "snd (resolve_short_url http_get url) = [(url, False)]
   \<and> (http_get url = RequestFailed \<longrightarrow> fst (resolve_short_url http_get url) = url)
   \<and> (\<forall>headers. http_get url = HttpResponse headers \<and> headers ''Location'' = None \<longrightarrow>
          fst (resolve_short_url http_get url) = url)
   \<and> (\<forall>headers location. http_get url = HttpResponse headers \<and> headers ''Location'' = Some location \<longrightarrow>
          (if matches (''/video/'', 1, None) location \<or> matches (''/share/video/'', 1, None) location
           then \<exists>video_id. captures (''/video/'', 1, None) location video_id
                  \<and> video_id \<noteq> [] \<and> (\<forall>c \<in> set video_id. is_digit c)
                  \<and> fst (resolve_short_url http_get url) = ''https://www.douyin.com/video/'' @ video_id
           else fst (resolve_short_url http_get url) = location))"
proof -
  have c1: "snd (resolve_short_url http_get url) = [(url, False)]"
    by (simp add: resolve_short_url_def split: http_result.splits option.splits)
  have c2: "http_get url = RequestFailed \<longrightarrow> fst (resolve_short_url http_get url) = url"
    by (simp add: resolve_short_url_def)
  have c3: "\<forall>headers. http_get url = HttpResponse headers \<and> headers ''Location'' = None \<longrightarrow>
          fst (resolve_short_url http_get url) = url"
    by (simp add: resolve_short_url_def)
  have c4: "\<forall>headers location. http_get url = HttpResponse headers \<and> headers ''Location'' = Some location \<longrightarrow>
          (if matches (''/video/'', 1, None) location \<or> matches (''/share/video/'', 1, None) location
           then \<exists>video_id. captures (''/video/'', 1, None) location video_id
                  \<and> video_id \<noteq> [] \<and> (\<forall>c \<in> set video_id. is_digit c)
                  \<and> fst (resolve_short_url http_get url) = ''https://www.douyin.com/video/'' @ video_id
           else fst (resolve_short_url http_get url) = location)"
  proof (intro allI impI)
    fix headers location
    assume h: "http_get url = HttpResponse headers \<and> headers ''Location'' = Some location"
    show "if matches (''/video/'', 1, None) location \<or> matches (''/share/video/'', 1, None) location
           then \<exists>video_id. captures (''/video/'', 1, None) location video_id
                  \<and> video_id \<noteq> [] \<and> (\<forall>c \<in> set video_id. is_digit c)
                  \<and> fst (resolve_short_url http_get url) = ''https://www.douyin.com/video/'' @ video_id
           else fst (resolve_short_url http_get url) = location"
    proof (cases "matches (''/video/'', 1, None) location")
      case True
      then obtain g where g: "re_search (''/video/'', 1, None) location = Some g"
        using re_search_None[of "(''/video/'', 1, None)" location] by auto
      then have cap: "captures (''/video/'', 1, None) location g"
        by (simp add: re_search_captures_iff)
      from captures_digits[OF cap] have d: "\<forall>c \<in> set g. is_digit c" by blast
      from cap obtain pre ds where "occurs (''/video/'', 1, None) pre ds location" "g = ds"
        by (auto simp: captures_def)
      then have ne: "g \<noteq> []" by (auto simp: occurs_def)
      have "fst (resolve_short_url http_get url) = ''https://www.douyin.com/video/'' @ g"
        using h g by (simp add: resolve_short_url_def)
      with True cap d ne show ?thesis by auto
    next
      case False
      then have n1: "re_search (''/video/'', 1, None) location = None"
        by (simp add: re_search_None)
      from False share_video_matches have "\<not> matches (''/share/video/'', 1, None) location"
        by blast
      then have n2: "re_search (''/share/video/'', 1, None) location = None"
        by (simp add: re_search_None)
      have "fst (resolve_short_url http_get url) = location"
        using h n1 n2 by (simp add: resolve_short_url_def)
      with False \<open>\<not> matches (''/share/video/'', 1, None) location\<close> show ?thesis by simp
    qed
  qed
  from c1 c2 c3 c4 show ?thesis by blast
qed

theorem resolve_short_url_cases_witness:
  "example_redirect ''https://v.douyin.com/gNv_ZvhuEr0/''
     = HttpResponse [''Location'' \<mapsto> ''https://www.iesdouyin.com/share/video/7549035040701844779/?region=CN'']
   \<and> matches (''/video/'', 1, None) ''https://www.iesdouyin.com/share/video/7549035040701844779/?region=CN''
   \<and> resolve_short_url example_redirect ''https://v.douyin.com/gNv_ZvhuEr0/''
       = (''https://www.douyin.com/video/7549035040701844779'',
          [(''https://v.douyin.com/gNv_ZvhuEr0/'', False)])"
proof -
  have r: "re_search (''/video/'', 1, None)
             ''https://www.iesdouyin.com/share/video/7549035040701844779/?region=CN''
           = Some ''7549035040701844779''"
    by (simp add: match_at_def is_digit_def)
  have m: "matches (''/video/'', 1, None) ''https://www.iesdouyin.com/share/video/7549035040701844779/?region=CN''"
    using r re_search_None[of "(''/video/'', 1, None)"
        "''https://www.iesdouyin.com/share/video/7549035040701844779/?region=CN''"] by simp
  have e: "example_redirect ''https://v.douyin.com/gNv_ZvhuEr0/''
     = HttpResponse [''Location'' \<mapsto> ''https://www.iesdouyin.com/share/video/7549035040701844779/?region=CN'']"
    by (simp add: example_redirect_def)
  have v: "fst (resolve_short_url example_redirect ''https://v.douyin.com/gNv_ZvhuEr0/'')
       = ''https://www.douyin.com/video/7549035040701844779''"
    using r by (simp add: resolve_short_url_def example_redirect_def)
  note t = resolve_short_url_cases[of example_redirect "''https://v.douyin.com/gNv_ZvhuEr0/''"]
  have "resolve_short_url example_redirect ''https://v.douyin.com/gNv_ZvhuEr0/''
       = (''https://www.douyin.com/video/7549035040701844779'',
          [(''https://v.douyin.com/gNv_ZvhuEr0/'', False)])"
    using t[THEN conjunct1] v
    by (cases "resolve_short_url example_redirect ''https://v.douyin.com/gNv_ZvhuEr0/''") simp
  with e m show ?thesis by simp
qed

subsection \<open>The proxy manager\<close>

lemma available_loop_stats:
  "currently_blocked (snd (available_loop now ps stats acc)) now q = currently_blocked stats now q
   \<and> last_used (snd (available_loop now ps stats acc) q) = last_used (stats q)"
proof (induction ps arbitrary: stats acc)
  case Nil
  show ?case by simp
next
  case (Cons p ps)
  define stats1 where "stats1 = (if blocked (stats p)
                         then stats(p := (stats p)\<lparr>blocked := False, block_until := 0\<rparr>)
                         else stats)"
  show ?case
  proof (cases "blocked (stats p) \<and> now < block_until (stats p)")
    case True
    then show ?thesis using Cons.IH[of stats acc] by simp
  next
    case False
    have s1: "currently_blocked stats1 now q = currently_blocked stats now q
        \<and> last_used (stats1 q) = last_used (stats q)"
      using False by (auto simp: stats1_def currently_blocked_def)
    have "snd (available_loop now (p # ps) stats acc) =
        (if now - last_used (stats1 p) < 1 then snd (available_loop now ps stats1 acc)
         else snd (available_loop now ps stats1 (acc @ [p])))"
      using False by (auto simp: stats1_def Let_def)
    then show ?thesis
      using Cons.IH[of stats1 acc] Cons.IH[of stats1 "acc @ [p]"] s1 by (auto split: if_splits)
  qed
qed

lemma available_loop_set:
  "set (fst (available_loop now ps stats acc)) =
     set acc \<union> {p \<in> set ps. \<not> currently_blocked stats now p \<and> \<not> now - last_used (stats p) < 1}"
proof (induction ps arbitrary: stats acc)
  case Nil
  show ?case by simp
next
  case (Cons p ps)
  define stats1 where "stats1 = (if blocked (stats p)
                         then stats(p := (stats p)\<lparr>blocked := False, block_until := 0\<rparr>)
                         else stats)"
  show ?case
  proof (cases "blocked (stats p) \<and> now < block_until (stats p)")
    case True
    then show ?thesis using Cons.IH[of stats acc] by (auto simp: currently_blocked_def)
  next
    case False
    have s1: "\<And>q. currently_blocked stats1 now q = currently_blocked stats now q"
         "\<And>q. last_used (stats1 q) = last_used (stats q)"
      using False by (auto simp: stats1_def currently_blocked_def)
    have nb: "\<not> currently_blocked stats now p" using False by (simp add: currently_blocked_def)
    have "fst (available_loop now (p # ps) stats acc) =
        (if now - last_used (stats1 p) < 1 then fst (available_loop now ps stats1 acc)
         else fst (available_loop now ps stats1 (acc @ [p])))"
      using False by (auto simp: stats1_def Let_def)
    then show ?thesis
      using Cons.IH[of stats1 acc] Cons.IH[of stats1 "acc @ [p]"] s1 nb
      by (auto split: if_splits)
  qed
qed

lemma get_available_proxies_set:
  "set (fst (get_available_proxies pm now)) =
     {p \<in> set (proxies pm). \<not> currently_blocked (proxy_stats pm) now p
                              \<and> 1 \<le> now - last_used (proxy_stats pm p)}"
proof -
  have e: "fst (get_available_proxies pm now)
          = fst (available_loop now (proxies pm) (proxy_stats pm) [])"
    by (simp add: get_available_proxies_def case_prod_beta)
  show ?thesis
    unfolding e available_loop_set[of now "proxies pm" "proxy_stats pm" "[]"]
    by (simp add: not_less)
qed

lemma random_choice_in: "xs \<noteq> [] \<Longrightarrow> random_choice rnd xs \<in> set xs"
  by (simp add: random_choice_def)

lemma proxy_weight_nonneg: "0 \<le> proxy_weight pm p"
  by (simp add: proxy_weight_def Let_def)

lemma positive_weight_exists:
  assumes "sum_list (map (proxy_weight pm) ps) \<noteq> 0"
  shows "filter (\<lambda>p. proxy_weight pm p > 0) ps \<noteq> []"
proof
  assume "filter (\<lambda>p. proxy_weight pm p > 0) ps = []"
  then have "\<forall>p \<in> set ps. \<not> proxy_weight pm p > 0" by (simp add: filter_empty_conv)
  then have "\<forall>p \<in> set ps. proxy_weight pm p = 0"
    using proxy_weight_nonneg[of pm] by (auto simp: order.order_iff_strict)
  then have "sum_list (map (proxy_weight pm) ps) = 0" by (induction ps) auto
  with assms show False by simp
qed

lemma get_weighted_proxy_in: "ps \<noteq> [] \<Longrightarrow> get_weighted_proxy pm rnd ps \<in> set ps"
proof -
  assume ne: "ps \<noteq> []"
  show ?thesis
  proof (cases "sum_list (map (proxy_weight pm) ps) = 0")
    case True
    then show ?thesis using ne by (simp add: get_weighted_proxy_def random_choice_in)
  next
    case False
    from random_choice_in[OF positive_weight_exists[OF False], of rnd]
    show ?thesis using False by (auto simp: get_weighted_proxy_def)
  qed
qed

lemma get_proxy_Some:
  assumes "fst (get_proxy pm strategy rnd now) = Some p"
  shows "p \<in> set (fst (get_available_proxies pm now))"
proof -
  obtain av pm1 where g: "get_available_proxies pm now = (av, pm1)"
    by (cases "get_available_proxies pm now")
  from assms g have ne: "av \<noteq> []" "proxies pm \<noteq> []"
    by (auto simp: get_proxy_def Let_def split: if_splits)
  have m: "av ! (current_index pm1 mod length av) \<in> set av" "av ! 0 \<in> set av"
    using ne by simp_all
  from assms g ne have "p \<in> set av"
    using random_choice_in[OF ne(1), of rnd] get_weighted_proxy_in[OF ne(1), of pm1 rnd] m
    by (auto simp: get_proxy_def Let_def split: if_splits)
  with g show ?thesis by simp
qed

lemma get_proxy_None:
  "fst (get_proxy pm strategy rnd now) = None \<longleftrightarrow>
     proxies pm = [] \<or> fst (get_available_proxies pm now) = []"
  by (cases "get_available_proxies pm now")
     (auto simp: get_proxy_def Let_def case_prod_beta split: if_splits)

lemma mark_failure_blocks:
  assumes "proxy \<noteq> []" "2 \<le> failure (proxy_stats pm proxy)"
    and "last_success (proxy_stats pm proxy) \<le> now - 60"
  shows "blocked (proxy_stats (mark_failure pm proxy d now) proxy)
       \<and> block_until (proxy_stats (mark_failure pm proxy d now) proxy) = now + of_int d
       \<and> last_used (proxy_stats (mark_failure pm proxy d now) proxy) = last_used (proxy_stats pm proxy)
       \<and> proxies (mark_failure pm proxy d now) = proxies pm"
  using assms by (simp add: mark_failure_def count_recent_failures_def Let_def)

text \<open>
  Claim C8. \<open>get_proxy\<close> returns only proxies of the list that are not currently blocked.
  When \<open>mark_failure\<close> finds 3 recent failures (the failure just counted is at least the
  third and there was no success in the last 60 seconds) it sets the blocked flag and
  \<open>block_until\<close> to the present instant plus the block duration; from then on no call of
  \<open>get_proxy\<close> before that instant returns the proxy, and the proxy is among the available
  ones at an instant exactly when it is in the list, \<open>block_until\<close> has been reached and its
  last use lies a second back. \<open>get_proxy\<close> returns \<open>None\<close> exactly when the list is empty
  or no proxy is available.
\<close>

theorem get_proxy_never_blocked:
  "(\<forall>p. fst (get_proxy pm strategy rnd now) = Some p \<longrightarrow>
        p \<in> set (proxies pm) \<and> \<not> currently_blocked (proxy_stats pm) now p)
   \<and> (proxy \<noteq> [] \<and> 2 \<le> failure (proxy_stats pm proxy)
        \<and> last_success (proxy_stats pm proxy) \<le> now - 60 \<longrightarrow>
        (let pm' = mark_failure pm proxy d now
         in blocked (proxy_stats pm' proxy)
          \<and> block_until (proxy_stats pm' proxy) = now + of_int d
          \<and> (\<forall>t s r. t < now + of_int d \<longrightarrow> fst (get_proxy pm' s r t) \<noteq> Some proxy)
          \<and> (\<forall>t. proxy \<in> set (fst (get_available_proxies pm' t)) \<longleftrightarrow>
                 proxy \<in> set (proxies pm) \<and> now + of_int d \<le> t
                 \<and> 1 \<le> t - last_used (proxy_stats pm proxy))))
   \<and> (fst (get_proxy pm strategy rnd now) = None \<longleftrightarrow>
        proxies pm = [] \<or> fst (get_available_proxies pm now) = [])"
proof -
  have c1: "\<forall>p. fst (get_proxy pm strategy rnd now) = Some p \<longrightarrow>
        p \<in> set (proxies pm) \<and> \<not> currently_blocked (proxy_stats pm) now p"
    using get_proxy_Some[of pm strategy rnd now] get_available_proxies_set[of pm now] by blast
  have c2: "proxy \<noteq> [] \<and> 2 \<le> failure (proxy_stats pm proxy)
        \<and> last_success (proxy_stats pm proxy) \<le> now - 60 \<longrightarrow>
        (let pm' = mark_failure pm proxy d now
         in blocked (proxy_stats pm' proxy)
          \<and> block_until (proxy_stats pm' proxy) = now + of_int d
          \<and> (\<forall>t s r. t < now + of_int d \<longrightarrow> fst (get_proxy pm' s r t) \<noteq> Some proxy)
          \<and> (\<forall>t. proxy \<in> set (fst (get_available_proxies pm' t)) \<longleftrightarrow>
                 proxy \<in> set (proxies pm) \<and> now + of_int d \<le> t
                 \<and> 1 \<le> t - last_used (proxy_stats pm proxy)))"
  proof
    assume h: "proxy \<noteq> [] \<and> 2 \<le> failure (proxy_stats pm proxy)
        \<and> last_success (proxy_stats pm proxy) \<le> now - 60"
    define pm' where "pm' = mark_failure pm proxy d now"
    from h mark_failure_blocks[of proxy pm now d]
    have b: "blocked (proxy_stats pm' proxy)"
        "block_until (proxy_stats pm' proxy) = now + of_int d"
        "last_used (proxy_stats pm' proxy) = last_used (proxy_stats pm proxy)"
        "proxies pm' = proxies pm"
      unfolding pm'_def by blast+
    have av: "\<And>t. proxy \<in> set (fst (get_available_proxies pm' t)) \<longleftrightarrow>
                 proxy \<in> set (proxies pm) \<and> now + of_int d \<le> t
                 \<and> 1 \<le> t - last_used (proxy_stats pm proxy)"
      unfolding get_available_proxies_set using b
      by (auto simp: currently_blocked_def not_less)
    have "\<And>t s r. t < now + of_int d \<Longrightarrow> fst (get_proxy pm' s r t) \<noteq> Some proxy"
    proof
      fix t s r assume t: "t < now + of_int d" and "fst (get_proxy pm' s r t) = Some proxy"
      then have "proxy \<in> set (fst (get_available_proxies pm' t))" by (rule_tac get_proxy_Some)
      with av t show False by simp
    qed
    with b av show "let pm' = mark_failure pm proxy d now
         in blocked (proxy_stats pm' proxy)
          \<and> block_until (proxy_stats pm' proxy) = now + of_int d
          \<and> (\<forall>t s r. t < now + of_int d \<longrightarrow> fst (get_proxy pm' s r t) \<noteq> Some proxy)
          \<and> (\<forall>t. proxy \<in> set (fst (get_available_proxies pm' t)) \<longleftrightarrow>
                 proxy \<in> set (proxies pm) \<and> now + of_int d \<le> t
                 \<and> 1 \<le> t - last_used (proxy_stats pm proxy))"
      unfolding Let_def pm'_def[symmetric] by blast
  qed
  have c3: "fst (get_proxy pm strategy rnd now) = None \<longleftrightarrow>
        proxies pm = [] \<or> fst (get_available_proxies pm now) = []"
    by (rule get_proxy_None)
  from c1 c2 c3 show ?thesis by blast
qed

lemma example_pm_eq:
  "example_pm =
     \<lparr>proxies = [example_proxy],
      proxy_stats = (\<lambda>_. default_stat)(example_proxy := default_stat\<lparr>failure := 2\<rparr>),
      rotation_strategy = ''random'', current_index = 0\<rparr>"
  by (simp add: example_pm_def mark_failure_def count_recent_failures_def ProxyManager_init_def
        default_stat_def example_proxy_def Let_def numeral_2_eq_2)

theorem get_proxy_never_blocked_witness:
  "example_proxy \<noteq> [] \<and> 2 \<le> failure (proxy_stats example_pm example_proxy)
   \<and> last_success (proxy_stats example_pm example_proxy) \<le> 102 - 60
   \<and> blocked (proxy_stats (mark_failure example_pm example_proxy 300 102) example_proxy)
   \<and> block_until (proxy_stats (mark_failure example_pm example_proxy 300 102) example_proxy) = 402
   \<and> fst (get_proxy (mark_failure example_pm example_proxy 300 102) None 0 401) = None
   \<and> fst (get_proxy (mark_failure example_pm example_proxy 300 102) None 0 402) = Some example_proxy
   \<and> fst (get_proxy example_pm None 0 102) = Some example_proxy"
proof -
  have h: "example_proxy \<noteq> [] \<and> 2 \<le> failure (proxy_stats example_pm example_proxy)
        \<and> last_success (proxy_stats example_pm example_proxy) \<le> 102 - 60"
    by (simp add: example_pm_eq default_stat_def) (simp add: example_proxy_def)
  have m: "mark_failure example_pm example_proxy 300 102 =
     \<lparr>proxies = [example_proxy],
      proxy_stats = (\<lambda>_. default_stat)
         (example_proxy := default_stat\<lparr>failure := 3, blocked := True, block_until := 402\<rparr>),
      rotation_strategy = ''random'', current_index = 0\<rparr>"
    using h by (simp add: example_pm_eq mark_failure_def count_recent_failures_def default_stat_def Let_def)
  have g1: "fst (get_proxy (mark_failure example_pm example_proxy 300 102) None 0 401) = None"
    unfolding m by (simp add: get_proxy_def get_available_proxies_def default_stat_def Let_def)
  have g2: "fst (get_proxy (mark_failure example_pm example_proxy 300 102) None 0 402) = Some example_proxy"
    unfolding m
    by (simp add: get_proxy_def get_available_proxies_def default_stat_def Let_def random_choice_def)
  have g3: "fst (get_proxy example_pm None 0 102) = Some example_proxy"
    unfolding example_pm_eq
    by (simp add: get_proxy_def get_available_proxies_def default_stat_def Let_def random_choice_def)
  from get_proxy_never_blocked[of example_pm None 0 102 example_proxy 300] h g1 g2 g3
  show ?thesis by (simp add: Let_def)
qed

subsection \<open>The downloader\<close>














text \<open>
  White space that \<open>str.strip\<close> removes beyond the ASCII range is removed too, and a
  name of nothing else becomes \<open>untitled\<close>.
\<close>

lemma sanitize_filename_no_break_space:
  "sanitize_filename [CHR 0xA0, CHR ''a'', CHR 0x85] = ''a''
   \<and> sanitize_filename [CHR 0xA0, CHR ''?'', CHR 0x85] = ''untitled''"
  by (simp add: sanitize_filename_def strip_def illegal_char_def is_space_def Let_def)

end
